(* ===== verification/Prelude.thy ===== *)
theory Prelude
  imports Main "HOL-Library.Word"
begin

text \<open>
  What every component shares: machine integers and byte buffers, the combinators of Rust's
  \<open>Result\<close> and \<open>Option\<close> that the code chains its checks with, a \<open>Mutex\<close> with its poison flag,
  and two generic theories of state machines. The first is reachability with invariants. The
  second, used for every object the bindings hand out that retires itself, says what a
  sequence of calls on such an object can return.
\<close>

section \<open>Machine integers and buffers\<close>

type_synonym u8 = "8 word"
type_synonym u16 = "16 word"
type_synonym u32 = "32 word"
type_synonym u64 = "64 word"
type_synonym bytes = "u8 list"

named_theorems result_simps \<open>inversion of the combinators of Result and Option\<close>
named_theorems spec_simps \<open>unfolding of the declarative specifications\<close>

section \<open>Results\<close>

text \<open>
  \<open>Result<T, E>\<close> is \<open>'e + 'a\<close> with \<open>Inl\<close> the error. The code's \<open>?\<close> operator and its
  \<open>and_then\<close> are both \<open>and_then\<close>.
\<close>

definition and_then :: "'e + 'a \<Rightarrow> ('a \<Rightarrow> 'e + 'b) \<Rightarrow> 'e + 'b" where
  "and_then r f = (case r of Inl e \<Rightarrow> Inl e | Inr x \<Rightarrow> f x)"

definition map_err :: "('e \<Rightarrow> 'f) \<Rightarrow> 'e + 'a \<Rightarrow> 'f + 'a" where
  "map_err f r = (case r of Inl e \<Rightarrow> Inl (f e) | Inr x \<Rightarrow> Inr x)"

definition map_ok :: "('a \<Rightarrow> 'b) \<Rightarrow> 'e + 'a \<Rightarrow> 'e + 'b" where
  "map_ok f r = (case r of Inl e \<Rightarrow> Inl e | Inr x \<Rightarrow> Inr (f x))"

definition ok_or :: "'e \<Rightarrow> 'a option \<Rightarrow> 'e + 'a" where
  "ok_or e x = (case x of None \<Rightarrow> Inl e | Some a \<Rightarrow> Inr a)"

text \<open>An early return \<open>if !c { return Err(e) }\<close>.\<close>

definition require :: "bool \<Rightarrow> 'e \<Rightarrow> 'e + unit" where
  "require c e = (if c then Inr () else Inl e)"

text \<open>\<open>Option<Result<T, E>>::transpose\<close>.\<close>

definition transpose_result :: "('e + 'a) option \<Rightarrow> 'e + 'a option" where
  "transpose_result x = (case x of None \<Rightarrow> Inr None | Some r \<Rightarrow> map_ok Some r)"

text \<open>\<open>iter().map(f).collect::<Result<Vec<_>, _>>()\<close>: the first error wins.\<close>

fun try_map :: "('a \<Rightarrow> 'e + 'b) \<Rightarrow> 'a list \<Rightarrow> 'e + 'b list" where
  "try_map f [] = Inr []"
| "try_map f (x # xs) =
     (case f x of Inl e \<Rightarrow> Inl e | Inr y \<Rightarrow> map_ok (Cons y) (try_map f xs))"

definition is_ok :: "'e + 'a \<Rightarrow> bool" where
  "is_ok r = (case r of Inl e \<Rightarrow> False | Inr x \<Rightarrow> True)"

lemma and_then_simps [simp]:
  "and_then (Inl e) f = Inl e" "and_then (Inr x) f = f x"
  by (simp_all add: and_then_def)

lemma map_err_simps [simp]:
  "map_err g (Inl e) = Inl (g e)" "map_err g (Inr x) = Inr x"
  by (simp_all add: map_err_def)

lemma map_ok_simps [simp]:
  "map_ok g (Inl e) = Inl e" "map_ok g (Inr x) = Inr (g x)"
  by (simp_all add: map_ok_def)

lemma ok_or_simps [simp]:
  "ok_or e None = Inl e" "ok_or e (Some x) = Inr x"
  by (simp_all add: ok_or_def)

lemma require_simps [simp]:
  "require True e = Inr ()" "require False e = Inl e"
  by (simp_all add: require_def)

lemma transpose_result_simps [simp]:
  "transpose_result None = Inr None" "transpose_result (Some (Inr x)) = Inr (Some x)"
  "transpose_result (Some (Inl e)) = Inl e"
  by (simp_all add: transpose_result_def)

lemma is_ok_simps [simp]: "is_ok (Inr x)" "\<not> is_ok (Inl e)"
  by (simp_all add: is_ok_def)

lemma and_then_eq_Inr [result_simps]:
  "and_then r f = Inr y \<longleftrightarrow> (\<exists>x. r = Inr x \<and> f x = Inr y)"
  by (cases r) auto

lemma and_then_eq_Inl [result_simps]:
  "and_then r f = Inl e \<longleftrightarrow> r = Inl e \<or> (\<exists>x. r = Inr x \<and> f x = Inl e)"
  by (cases r) auto

lemma map_err_eq [result_simps]:
  "map_err g r = Inr y \<longleftrightarrow> r = Inr y"
  "map_err g r = Inl d \<longleftrightarrow> (\<exists>e. r = Inl e \<and> g e = d)"
  by (cases r; auto)+

lemma map_ok_eq [result_simps]:
  "map_ok h r = Inr y \<longleftrightarrow> (\<exists>x. r = Inr x \<and> y = h x)"
  "map_ok h r = Inl e \<longleftrightarrow> r = Inl e"
  by (cases r; auto)+

lemma ok_or_eq [result_simps]:
  "ok_or d x = Inr y \<longleftrightarrow> x = Some y"
  "ok_or d x = Inl e \<longleftrightarrow> x = None \<and> e = d"
  by (cases x; auto)+

lemma require_eq [result_simps]:
  "require c d = Inr u \<longleftrightarrow> c"
  "require c d = Inl e \<longleftrightarrow> \<not> c \<and> e = d"
  by (auto simp: require_def)

lemma transpose_result_eq [result_simps]:
  "transpose_result x = Inr y \<longleftrightarrow>
     (x = None \<and> y = None) \<or> (\<exists>z. x = Some (Inr z) \<and> y = Some z)"
  "transpose_result x = Inl e \<longleftrightarrow> x = Some (Inl e)"
  by (auto simp: transpose_result_def map_ok_def split: option.splits sum.splits)

lemma try_map_eq_Inr: "try_map f xs = Inr ys \<longleftrightarrow> list_all2 (\<lambda>x y. f x = Inr y) xs ys"
proof (induction xs arbitrary: ys)
  case Nil
  then show ?case by auto
next
  case (Cons x xs)
  then show ?case
    by (auto simp: result_simps list_all2_Cons1 split: sum.splits)
qed

lemma try_map_eq_Inl: "try_map f xs = Inl e \<Longrightarrow> \<exists>x \<in> set xs. f x = Inl e"
  by (induction xs) (auto simp: result_simps split: sum.splits)

section \<open>Mutexes\<close>

text \<open>
  \<open>std::sync::Mutex\<close>: a value and the poison flag a panicking holder leaves behind. Calls that
  hold a lock are one step of the model, so blocking does not appear; \<open>lock\<close> fails exactly on
  a poisoned mutex.
\<close>

record 'a mutex =
  poisoned :: bool
  guarded :: 'a

definition new_mutex :: "'a \<Rightarrow> 'a mutex" where
  "new_mutex v = \<lparr>poisoned = False, guarded = v\<rparr>"

definition lock :: "'a mutex \<Rightarrow> 'a option" where
  "lock m = (if poisoned m then None else Some (guarded m))"

lemma new_mutex_simps [simp]: "poisoned (new_mutex v) = False" "guarded (new_mutex v) = v"
  by (simp_all add: new_mutex_def)

lemma lock_eq [result_simps]:
  "lock m = Some v \<longleftrightarrow> \<not> poisoned m \<and> guarded m = v"
  "lock m = None \<longleftrightarrow> poisoned m"
  by (auto simp: lock_def)

section \<open>Transition systems\<close>

inductive reachable :: "('s \<Rightarrow> bool) \<Rightarrow> ('s \<Rightarrow> 's \<Rightarrow> bool) \<Rightarrow> 's \<Rightarrow> bool"
  for init :: "'s \<Rightarrow> bool" and step :: "'s \<Rightarrow> 's \<Rightarrow> bool" where
  reachable_init: "init s \<Longrightarrow> reachable init step s"
| reachable_step: "reachable init step s \<Longrightarrow> step s t \<Longrightarrow> reachable init step t"

locale invariant_system =
  fixes init :: "'s \<Rightarrow> bool"
    and step :: "'s \<Rightarrow> 's \<Rightarrow> bool"
    and inv :: "'s \<Rightarrow> bool"
  assumes inv_init: "init s \<Longrightarrow> inv s"
    and inv_step: "inv s \<Longrightarrow> step s t \<Longrightarrow> inv t"
begin

lemma reachable_inv: "reachable init step s \<Longrightarrow> inv s"
  by (induction rule: reachable.induct) (auto intro: inv_init inv_step)

end

section \<open>Objects that are called in sequence\<close>

text \<open>
  An object of the bindings is a state and a reply per call. \<open>run_calls\<close> is a sequence of
  calls, in the order the object's lock admits them.
\<close>

fun run_calls :: "('c \<Rightarrow> 's \<Rightarrow> 's \<times> 'r) \<Rightarrow> 'c list \<Rightarrow> 's \<Rightarrow> 's \<times> 'r list" where
  "run_calls call [] s = (s, [])"
| "run_calls call (c # cs) s =
     (let (s1, r) = call c s; (s2, rs) = run_calls call cs s1 in (s2, r # rs))"

lemma run_calls_append:
  "run_calls call (as @ bs) s =
     (let (s1, r1) = run_calls call as s; (s2, r2) = run_calls call bs s1 in (s2, r1 @ r2))"
  by (induction as arbitrary: s) (simp_all add: Let_def split_beta)

lemma run_calls_snoc:
  "run_calls call (cs @ [c]) s = (s', rs @ [r]) \<longleftrightarrow>
     (\<exists>s1. run_calls call cs s = (s1, rs) \<and> call c s1 = (s', r))"
  by (auto simp: run_calls_append Let_def split: prod.splits)

lemma run_calls_Cons:
  "run_calls call (c # cs) s = (s', r # rs) \<longleftrightarrow>
     (\<exists>s1. call c s = (s1, r) \<and> run_calls call cs s1 = (s', rs))"
  by (auto simp: Let_def split: prod.splits)

lemma length_filter_zip_snd:
  "length cs = length rs \<Longrightarrow>
     length (filter (\<lambda>(c, r). P r) (zip cs rs)) = length (filter P rs)"
  by (induction cs rs rule: list_induct2) simp_all

lemma length_run_calls: "length (snd (run_calls call cs s)) = length cs"
  by (induction cs arbitrary: s) (simp_all add: Let_def split_beta)

text \<open>
  \<open>at_most_once\<close>: some event of a call (\<open>win\<close>) uses the object up (\<open>spent\<close>), which no later call
  undoes and after which the event cannot happen. Then no sequence of calls sees it twice.
\<close>

locale at_most_once =
  fixes call :: "'c \<Rightarrow> 's \<Rightarrow> 's \<times> 'r"
    and win :: "'c \<Rightarrow> 'r \<Rightarrow> bool"
    and spent :: "'s \<Rightarrow> bool"
  assumes win_spends: "win c (snd (call c s)) \<Longrightarrow> spent (fst (call c s))"
    and spent_stays: "spent s \<Longrightarrow> spent (fst (call c s))"
    and spent_no_win: "spent s \<Longrightarrow> \<not> win c (snd (call c s))"
begin

lemma spent_run: "spent s \<Longrightarrow> spent (fst (run_calls call cs s))"
  by (induction cs arbitrary: s) (simp_all add: Let_def split_beta spent_stays)

lemma spent_run_no_wins:
  "spent s \<Longrightarrow> filter (\<lambda>(c, r). win c r) (zip cs (snd (run_calls call cs s))) = []"
proof (induction cs arbitrary: s)
  case Nil
  then show ?case by simp
next
  case (Cons c cs)
  obtain s1 r where s1: "call c s = (s1, r)" by fastforce
  obtain s2 rs where s2: "run_calls call cs s1 = (s2, rs)" by fastforce
  from Cons.prems have "\<not> win c r" and "spent s1"
    using spent_no_win [of s c] spent_stays [of s c] s1 by simp_all
  with Cons.IH [of s1] s1 s2 show ?case by simp
qed

lemma at_most_one_win:
  "length (filter (\<lambda>(c, r). win c r) (zip cs (snd (run_calls call cs s)))) \<le> 1"
proof (induction cs arbitrary: s)
  case Nil
  then show ?case by simp
next
  case (Cons c cs)
  obtain s1 r where s1: "call c s = (s1, r)" by fastforce
  obtain s2 rs where s2: "run_calls call cs s1 = (s2, rs)" by fastforce
  show ?case
  proof (cases "win c r")
    case True
    then have "spent s1" using win_spends [of c s] s1 by simp
    from spent_run_no_wins [OF this, of cs] True s1 s2 show ?thesis by simp
  next
    case False
    with Cons.IH [of s1] s1 s2 show ?thesis by simp
  qed
qed

end

text \<open>
  \<open>one_shot\<close>: an object that retires. A retired object answers every call with the same error
  and does not change; the replies that \<open>complete\<close> it retire it.
\<close>

locale one_shot =
  fixes call :: "'c \<Rightarrow> 's \<Rightarrow> 's \<times> ('e + 'r)"
    and live :: "'s \<Rightarrow> bool"
    and dead_error :: "'s \<Rightarrow> 'e"
    and completes :: "'c \<Rightarrow> 'e + 'r \<Rightarrow> bool"
  assumes dead_call: "\<not> live s \<Longrightarrow> call c s = (s, Inl (dead_error s))"
    and completes_retires: "completes c (snd (call c s)) \<Longrightarrow> \<not> live (fst (call c s))"
    and dead_incomplete: "\<not> live s \<Longrightarrow> \<not> completes c (Inl (dead_error s))"
begin

lemma dead_run:
  "\<not> live s \<Longrightarrow> run_calls call cs s = (s, replicate (length cs) (Inl (dead_error s)))"
  by (induction cs) (auto simp: dead_call)

end

sublocale one_shot \<subseteq> at_most_once call completes "\<lambda>s. \<not> live s"
  by unfold_locales (auto simp: completes_retires dead_call dead_incomplete)

end
