(* ===== verification/Rust_Std.thy ===== *)
theory Rust_Std
  imports Prelude
begin

text \<open>
  The parts of Rust's standard library that the code uses on \<open>str\<close> and on integers. A \<open>str\<close> is
  its UTF-8 encoding, a list of bytes, which is what \<open>string\<close> is here: \<open>len\<close> and \<open>bytes\<close> see
  the bytes, \<open>chars\<close> and \<open>trim\<close> see Unicode scalar values, so they go through \<open>utf8_split\<close>.
\<close>

section \<open>UTF-8\<close>

text \<open>How many bytes a character takes, from its first byte.\<close>

definition utf8_width :: "char \<Rightarrow> nat" where
  "utf8_width c = (let n = of_char c :: nat in
     if n < 192 then 1 else if n < 224 then 2 else if n < 240 then 3 else 4)"

lemma utf8_width_pos: "0 < utf8_width c"
  by (simp add: utf8_width_def Let_def)

function utf8_split :: "string \<Rightarrow> string list" where
  "utf8_split [] = []"
| "utf8_split (c # s) =
     (c # take (utf8_width c - 1) s) # utf8_split (drop (utf8_width c - 1) s)"
  by pat_completeness auto
termination
  by (relation "measure length") auto

text \<open>The scalar value of one encoded character.\<close>

fun utf8_code :: "string \<Rightarrow> nat" where
  "utf8_code [] = 0"
| "utf8_code [a] = of_char a"
| "utf8_code [a, b] = (of_char a mod 32) * 64 + of_char b mod 64"
| "utf8_code [a, b, c] = (of_char a mod 16) * 4096 + (of_char b mod 64) * 64 + of_char c mod 64"
| "utf8_code (a # b # c # d # s) =
     (of_char a mod 8) * 262144 + (of_char b mod 64) * 4096 + (of_char c mod 64) * 64
     + of_char d mod 64"

definition str_chars :: "string \<Rightarrow> nat list" where
  "str_chars s = map utf8_code (utf8_split s)"

text \<open>\<open>char::is_control\<close> (general category Cc) and \<open>char::is_whitespace\<close> (White_Space).\<close>

definition char_is_control :: "nat \<Rightarrow> bool" where
  "char_is_control c = (c < 32 \<or> (127 \<le> c \<and> c \<le> 159))"

definition char_is_whitespace :: "nat \<Rightarrow> bool" where
  "char_is_whitespace c =
     ((9 \<le> c \<and> c \<le> 13) \<or> c = 32 \<or> c = 133 \<or> c = 160 \<or> c = 5760 \<or> (8192 \<le> c \<and> c \<le> 8202)
      \<or> c = 8232 \<or> c = 8233 \<or> c = 8239 \<or> c = 8287 \<or> c = 12288)"

definition str_trim :: "string \<Rightarrow> string" where
  "str_trim s =
     (let ws = (\<lambda>ch. char_is_whitespace (utf8_code ch))
      in concat (rev (dropWhile ws (rev (dropWhile ws (utf8_split s))))))"

text \<open>The patterns of the code are ASCII, so matching them works byte by byte.\<close>

definition trim_start_char :: "char \<Rightarrow> string \<Rightarrow> string" where
  "trim_start_char c s = dropWhile (\<lambda>b. b = c) s"

definition trim_end_char :: "char \<Rightarrow> string \<Rightarrow> string" where
  "trim_end_char c s = rev (dropWhile (\<lambda>b. b = c) (rev s))"

definition starts_with_char :: "char \<Rightarrow> string \<Rightarrow> bool" where
  "starts_with_char c s = (case s of [] \<Rightarrow> False | b # _ \<Rightarrow> b = c)"

definition ends_with_char :: "char \<Rightarrow> string \<Rightarrow> bool" where
  "ends_with_char c s = starts_with_char c (rev s)"

definition byte_in :: "nat \<Rightarrow> nat \<Rightarrow> char \<Rightarrow> bool" where
  "byte_in lo hi c = (lo \<le> of_char c \<and> of_char c \<le> hi)"

text \<open>\<open>u8::is_ascii_alphanumeric\<close> and \<open>u8::is_ascii_graphic\<close>.\<close>

definition is_ascii_alphanumeric :: "char \<Rightarrow> bool" where
  "is_ascii_alphanumeric c = (byte_in 48 57 c \<or> byte_in 65 90 c \<or> byte_in 97 122 c)"

definition is_ascii_graphic :: "char \<Rightarrow> bool" where
  "is_ascii_graphic c = byte_in 33 126 c"

section \<open>Lemmas on strings\<close>

lemma concat_utf8_split: "concat (utf8_split s) = s"
  by (induction s rule: utf8_split.induct) auto

lemma utf8_split_nonempty: "ch \<in> set (utf8_split s) \<Longrightarrow> ch \<noteq> []"
  by (induction s rule: utf8_split.induct) auto

lemma utf8_split_ascii:
  "list_all (\<lambda>c. of_char c < (128 :: nat)) s \<Longrightarrow> utf8_split s = map (\<lambda>c. [c]) s"
  by (induction s) (auto simp: utf8_width_def)

lemma str_chars_ascii:
  assumes "list_all (\<lambda>c. of_char c < (128 :: nat)) s"
  shows "str_chars s = map of_char s"
  using utf8_split_ascii [OF assms] by (simp add: str_chars_def)

text \<open>Trimming cuts at both ends and nowhere else.\<close>

lemma str_trim_sandwich: "\<exists>p q. s = p @ str_trim s @ q"
proof -
  let ?ws = "\<lambda>ch. char_is_whitespace (utf8_code ch)"
  let ?a = "dropWhile ?ws (utf8_split s)"
  let ?b = "rev (dropWhile ?ws (rev ?a))"
  have "utf8_split s = takeWhile ?ws (utf8_split s) @ ?a" by simp
  moreover have "?a = ?b @ rev (takeWhile ?ws (rev ?a))"
    by (metis rev_append rev_rev_ident takeWhile_dropWhile_id)
  ultimately have "utf8_split s =
      takeWhile ?ws (utf8_split s) @ ?b @ rev (takeWhile ?ws (rev ?a))" by simp
  then have "s = concat (takeWhile ?ws (utf8_split s)) @ concat ?b
      @ concat (rev (takeWhile ?ws (rev ?a)))"
    by (metis concat_append concat_utf8_split)
  then show ?thesis by (auto simp: str_trim_def Let_def)
qed

lemma str_trim_Nil [simp]: "str_trim [] = []"
  by (simp add: str_trim_def)

definition no_space_ascii :: "string \<Rightarrow> bool" where
  "no_space_ascii s = list_all (byte_in 33 126) s"

definition ascii_space :: "string \<Rightarrow> bool" where
  "ascii_space s = list_all (\<lambda>c. byte_in 9 13 c \<or> byte_in 32 32 c) s"

text \<open>On ASCII, trimming is the removal of white space at both ends of the byte list.\<close>

lemma str_trim_ascii:
  assumes "list_all (\<lambda>c. of_char c < (128 :: nat)) s"
  shows "str_trim s = rev (dropWhile (\<lambda>c. char_is_whitespace (of_char c))
    (rev (dropWhile (\<lambda>c. char_is_whitespace (of_char c)) s)))"
proof -
  let ?w = "\<lambda>c. char_is_whitespace (of_char c)"
  have "dropWhile (\<lambda>ch. char_is_whitespace (utf8_code ch)) (map (\<lambda>c. [c]) t)
      = map (\<lambda>c. [c]) (dropWhile ?w t)" for t
    by (simp add: dropWhile_map o_def)
  moreover have "concat (map (\<lambda>c. [c]) t) = t" for t :: string
    by (induction t) simp_all
  ultimately show ?thesis
    using utf8_split_ascii [OF assms] by (simp add: str_trim_def Let_def rev_map)
qed

lemma dropWhile_none: "(\<And>x. x \<in> set xs \<Longrightarrow> \<not> P x) \<Longrightarrow> dropWhile P xs = xs"
  by (cases xs) auto

text \<open>Graphic ASCII has nothing to trim, and loses exactly the white space around it.\<close>

lemma str_trim_padded:
  assumes g: "no_space_ascii s" and a: "ascii_space a" and b: "ascii_space b"
  shows "str_trim (a @ s @ b) = s"
proof -
  let ?w = "\<lambda>c. char_is_whitespace (of_char c)"
  have ws: "?w c" if "c \<in> set a \<union> set b" for c
    using a b that by (auto simp: ascii_space_def list_all_iff byte_in_def char_is_whitespace_def)
  have nw: "\<not> ?w c" if "c \<in> set s" for c
    using g that by (force simp: no_space_ascii_def list_all_iff byte_in_def char_is_whitespace_def)
  have "list_all (\<lambda>c. of_char c < (128 :: nat)) (a @ s @ b)"
    using g a b by (force simp: no_space_ascii_def ascii_space_def list_all_iff byte_in_def)
  then have t: "str_trim (a @ s @ b) = rev (dropWhile ?w (rev (dropWhile ?w (a @ s @ b))))"
    by (rule str_trim_ascii)
  have "dropWhile ?w (a @ s @ b) = dropWhile ?w (s @ b)"
    using ws by (simp add: dropWhile_append2)
  also have "rev (dropWhile ?w (rev (dropWhile ?w (s @ b)))) = s"
  proof (cases s)
    case Nil
    then show ?thesis using ws by (simp add: dropWhile_eq_Nil_conv [THEN iffD2])
  next
    case (Cons c cs)
    then have "dropWhile ?w (s @ b) = s @ b" using nw by simp
    moreover have "dropWhile ?w (rev b @ rev s) = dropWhile ?w (rev s)"
      by (rule dropWhile_append2) (simp add: ws)
    moreover have "dropWhile ?w (rev s) = rev s" by (rule dropWhile_none) (simp add: nw)
    ultimately show ?thesis by simp
  qed
  finally show ?thesis using t by simp
qed

lemma str_trim_graphic: "no_space_ascii s \<Longrightarrow> str_trim s = s"
  using str_trim_padded [of s "[]" "[]"] by (simp add: ascii_space_def)

lemma trim_start_char_idem [simp]: "trim_start_char c (trim_start_char c s) = trim_start_char c s"
  by (simp add: trim_start_char_def dropWhile_idem)

lemma trim_start_char_same [simp]: "trim_start_char c (c # s) = trim_start_char c s"
  by (simp add: trim_start_char_def)

section \<open>Display of integers\<close>

definition digit_char :: "nat \<Rightarrow> char" where
  "digit_char n = char_of (48 + n)"

fun show_nat :: "nat \<Rightarrow> string" where
  "show_nat n = (if n < 10 then [digit_char n] else show_nat (n div 10) @ [digit_char (n mod 10)])"

declare show_nat.simps [simp del]

definition show_int :: "int \<Rightarrow> string" where
  "show_int i = (if i < 0 then CHR ''-'' # show_nat (nat (- i)) else show_nat (nat i))"

text \<open>Big-endian integers: \<open>u32::from_be_bytes\<close> and \<open>u16::from_be_bytes\<close>.\<close>

definition u32_from_be :: "bytes \<Rightarrow> u32" where
  "u32_from_be bs = (word_of_nat (foldl (\<lambda>a b. a * 256 + unat b) 0 bs))"

definition u16_from_be :: "bytes \<Rightarrow> u16" where
  "u16_from_be bs = (word_of_nat (foldl (\<lambda>a b. a * 256 + unat b) 0 bs))"

definition u32_to_be :: "nat \<Rightarrow> bytes" where
  "u32_to_be n = [word_of_nat (n div 16777216), word_of_nat (n div 65536 mod 256),
     word_of_nat (n div 256 mod 256), word_of_nat (n mod 256)]"

lemma unat_u8_mod: "unat (word_of_nat n :: u8) = n mod 256"
  by (simp add: unat_of_nat)

lemma be_digits:
  fixes n :: nat
  assumes "n < 4294967296"
  shows "((n div 16777216 mod 256 * 256 + n div 65536 mod 256) * 256 + n div 256 mod 256) * 256
    + n mod 256 = n"
proof -
  have "n div 65536 = n div 256 div 256" using div_mult2_eq [of n 256 256] by simp
  moreover have "n div 16777216 = n div 65536 div 256" using div_mult2_eq [of n 65536 256] by simp
  moreover have "n div 16777216 mod 256 = n div 16777216"
    using assms by (simp add: less_mult_imp_div_less)
  ultimately show ?thesis
    using div_mult_mod_eq [of n 256] div_mult_mod_eq [of "n div 256" 256]
      div_mult_mod_eq [of "n div 65536" 256]
    by simp
qed

lemma u32_from_be_small:
  "foldl (\<lambda>a b. a * 256 + unat b) 0 bs = n \<Longrightarrow> n < 4294967296 \<Longrightarrow> unat (u32_from_be bs) = n"
  by (simp add: u32_from_be_def unat_of_nat del: of_nat_add of_nat_mult)

lemma u32_from_to_be:
  assumes "n < 4294967296"
  shows "unat (u32_from_be (u32_to_be n)) = n"
proof (rule u32_from_be_small [OF _ assms])
  show "foldl (\<lambda>a b. a * 256 + unat b) 0 (u32_to_be n) = n"
    using be_digits [OF assms] assms
    by (simp add: u32_to_be_def unat_u8_mod less_mult_imp_div_less)
qed

lemma digit_split: "d < (256::nat) \<Longrightarrow> (m * 256 + d) mod 256 = d \<and> (m * 256 + d) div 256 = m"
  by simp

lemma u32_to_from_be:
  assumes "length bs = 4"
  shows "u32_to_be (unat (u32_from_be bs)) = bs"
proof -
  obtain a b c d where bs: "bs = [a, b, c, d]"
    using assms by (auto simp: length_Suc_conv eval_nat_numeral)
  define k where "k = unat a * 256 + unat b"
  define m where "m = k * 256 + unat c"
  define n where "n = m * 256 + unat d"
  have lt: "unat a < 256" "unat b < 256" "unat c < 256" "unat d < 256"
    using unsigned_less [of a, where ?'a = nat] unsigned_less [of b, where ?'a = nat]
      unsigned_less [of c, where ?'a = nat] unsigned_less [of d, where ?'a = nat] by simp_all
  have n: "unat (u32_from_be bs) = n"
    using lt by (intro u32_from_be_small) (simp_all add: bs n_def m_def k_def)
  have nd: "n mod 256 = unat d \<and> n div 256 = m"
    unfolding n_def by (rule digit_split [OF lt(4)])
  have mc: "m mod 256 = unat c \<and> m div 256 = k"
    unfolding m_def by (rule digit_split [OF lt(3)])
  have kb: "k mod 256 = unat b \<and> k div 256 = unat a"
    unfolding k_def by (rule digit_split [OF lt(2)])
  have 2: "n div 65536 = k" "n div 16777216 = unat a"
    using div_mult2_eq [of n 256 256] div_mult2_eq [of n 256 65536]
      nd mc kb div_mult2_eq [of m 256 256] by simp_all
  show ?thesis using nd mc kb 2 by (simp add: u32_to_be_def bs n [unfolded bs])
qed

lemma length_u32_to_be [simp]: "length (u32_to_be n) = 4"
  by (simp add: u32_to_be_def)

end
