(* ===== verification/Ffi_Error.thy ===== *)
theory Ffi_Error
  imports Rust_Std
begin

text \<open>
  The error surface of the bindings and the small enumerations of \<open>lib.rs\<close>: \<open>HwiError\<close>, the
  network and address selectors with their conversions, \<open>DeviceKind\<close>, and \<open>map_error\<close> of
  \<open>types.rs\<close>, through which every error of the core interpreters passes. The core's own enums
  (\<open>bc::Error\<close>, \<open>bitcoin::Network\<close>, \<open>bitcoin::AddressType\<close>) have the variants that the
  code's matches name; an RPC code is only printed, and any \<open>int\<close> here.
\<close>

section \<open>Networks and address formats\<close>

datatype network = Bitcoin | Testnet | Signet | Regtest

text \<open>
  \<open>bitcoin::Network\<close> is \<open>#[non_exhaustive]\<close>: the four variants the code names and any other.
\<close>

datatype core_network =
    CoreBitcoin | CoreTestnet | CoreSignet | CoreRegtest | CoreOtherNetwork string

fun network_to_core :: "network \<Rightarrow> core_network" where
  "network_to_core Bitcoin = CoreBitcoin"
| "network_to_core Testnet = CoreTestnet"
| "network_to_core Signet = CoreSignet"
| "network_to_core Regtest = CoreRegtest"

fun network_from_core :: "core_network \<Rightarrow> network" where
  "network_from_core CoreBitcoin = Bitcoin"
| "network_from_core CoreSignet = Signet"
| "network_from_core CoreRegtest = Regtest"
| "network_from_core _ = Testnet"

datatype address_format = Legacy | NestedSegwit | NativeSegwit | Taproot

datatype core_address_type = P2pkh | P2sh | P2wpkh | P2tr

fun address_format_to_core :: "address_format \<Rightarrow> core_address_type" where
  "address_format_to_core Legacy = P2pkh"
| "address_format_to_core NestedSegwit = P2sh"
| "address_format_to_core NativeSegwit = P2wpkh"
| "address_format_to_core Taproot = P2tr"

lemma network_from_to_core: "network_from_core (network_to_core n) = n"
  by (cases n) simp_all

lemma address_format_to_core_inj: "address_format_to_core a = address_format_to_core b \<longleftrightarrow> a = b"
  by (cases a; cases b) simp_all

section \<open>Errors of the bindings\<close>

datatype hwi_error =
    Device string
  | UserRefused
  | AuthRefused
  | DeviceAlreadyUnlocked
  | InvalidInput string
  | BadState string
  | Internal string

definition invalid :: "string \<Rightarrow> hwi_error" where
  "invalid msg = InvalidInput msg"

definition bad_state :: "string \<Rightarrow> hwi_error" where
  "bad_state msg = BadState msg"

definition internal :: "string \<Rightarrow> hwi_error" where
  "internal msg = Internal msg"

text \<open>The \<open>#[error(...)]\<close> attributes: what \<open>Display\<close> prints.\<close>

fun hwi_error_display :: "hwi_error \<Rightarrow> string" where
  "hwi_error_display (Device msg) = ''device error: '' @ msg"
| "hwi_error_display UserRefused = ''user refused the operation''"
| "hwi_error_display AuthRefused = ''authentication refused''"
| "hwi_error_display DeviceAlreadyUnlocked = ''device is already unlocked''"
| "hwi_error_display (InvalidInput msg) = ''invalid input: '' @ msg"
| "hwi_error_display (BadState msg) = ''bad state: '' @ msg"
| "hwi_error_display (Internal msg) = ''internal error: '' @ msg"

fun is_bad_state :: "hwi_error \<Rightarrow> bool" where
  "is_bad_state (BadState msg) = True"
| "is_bad_state _ = False"

fun is_invalid_input :: "hwi_error \<Rightarrow> bool" where
  "is_invalid_input (InvalidInput msg) = True"
| "is_invalid_input _ = False"

lemma error_constructors [simp]:
  "is_bad_state (bad_state m)" "\<not> is_bad_state (invalid m)" "\<not> is_bad_state (internal m)"
  "is_invalid_input (invalid m)" "\<not> is_invalid_input (bad_state m)"
  "\<not> is_invalid_input (internal m)"
  by (simp_all add: invalid_def bad_state_def internal_def)

lemma is_bad_state_iff: "is_bad_state e \<longleftrightarrow> (\<exists>m. e = BadState m)"
  by (cases e) simp_all

lemma is_invalid_input_iff: "is_invalid_input e \<longleftrightarrow> (\<exists>m. e = InvalidInput m)"
  by (cases e) simp_all

section \<open>Device families\<close>

datatype device_kind =
    KLedger | KColdcard | KBitBox | KJade | KTrezor | KKeepKey | KSpecter

instantiation device_kind :: linorder
begin

fun device_kind_rank :: "device_kind \<Rightarrow> nat" where
  "device_kind_rank KLedger = 0"
| "device_kind_rank KColdcard = 1"
| "device_kind_rank KBitBox = 2"
| "device_kind_rank KJade = 3"
| "device_kind_rank KTrezor = 4"
| "device_kind_rank KKeepKey = 5"
| "device_kind_rank KSpecter = 6"

definition less_eq_device_kind :: "device_kind \<Rightarrow> device_kind \<Rightarrow> bool" where
  "less_eq_device_kind a b = (device_kind_rank a \<le> device_kind_rank b)"

definition less_device_kind :: "device_kind \<Rightarrow> device_kind \<Rightarrow> bool" where
  "less_device_kind a b = (device_kind_rank a < device_kind_rank b)"

instance
proof
  fix a b :: device_kind
  show "a \<le> b \<Longrightarrow> b \<le> a \<Longrightarrow> a = b"
    by (cases a; cases b) (simp_all add: less_eq_device_kind_def)
qed (auto simp: less_eq_device_kind_def less_device_kind_def)

end

text \<open>The derived \<open>Debug\<close> of \<open>DeviceKind\<close>, which \<open>{kind:?}\<close> prints.\<close>

fun kind_debug :: "device_kind \<Rightarrow> string" where
  "kind_debug KLedger = ''Ledger''"
| "kind_debug KColdcard = ''Coldcard''"
| "kind_debug KBitBox = ''BitBox''"
| "kind_debug KJade = ''Jade''"
| "kind_debug KTrezor = ''Trezor''"
| "kind_debug KKeepKey = ''KeepKey''"
| "kind_debug KSpecter = ''Specter''"

section \<open>Errors of the core\<close>

datatype core_error =
    CAuthenticationRefused
  | CUserCancelled
  | CDeviceAlreadyUnlocked string
  | CMissingCommandInfo string
  | CInvalidInput string
  | CDevice string
  | CUnexpectedResult bytes string
  | CRpc int "string option"
  | CSerialization string
  | CUnsupportedDisplayAddress string
  | CEncryption string
  | CRequest string
  | CNoErrorOrResult

fun map_error :: "core_error \<Rightarrow> device_kind \<Rightarrow> hwi_error" where
  "map_error CAuthenticationRefused kind = AuthRefused"
| "map_error CUserCancelled kind = UserRefused"
| "map_error (CDeviceAlreadyUnlocked _) kind = DeviceAlreadyUnlocked"
| "map_error (CMissingCommandInfo context) kind = InvalidInput context"
| "map_error (CInvalidInput _) kind = InvalidInput (kind_debug kind @ '': invalid command input'')"
| "map_error (CDevice _) kind = Device (kind_debug kind @ '': device reported an error'')"
| "map_error (CUnexpectedResult _ _) kind = Device (kind_debug kind @ '': unexpected response'')"
| "map_error (CRpc code _) kind = Device (kind_debug kind @ '': rpc error '' @ show_int code)"
| "map_error (CSerialization _) kind =
     Device (kind_debug kind @ '': protocol serialization failed'')"
| "map_error (CUnsupportedDisplayAddress _) kind =
     Device (kind_debug kind @ '': unsupported address display'')"
| "map_error (CEncryption context) kind = Device (''encryption error: '' @ context)"
| "map_error (CRequest context) kind = Device (''request error: '' @ context)"
| "map_error CNoErrorOrResult kind = Device ''no error or result returned''"

text \<open>
  What of a core error the host may learn: its variant, an RPC code, and the static context
  strings of three variants. Everything a device or a caller controls is erased.
\<close>

fun public_part :: "core_error \<Rightarrow> core_error" where
  "public_part (CDeviceAlreadyUnlocked _) = CDeviceAlreadyUnlocked []"
| "public_part (CInvalidInput _) = CInvalidInput []"
| "public_part (CDevice _) = CDevice []"
| "public_part (CUnexpectedResult _ _) = CUnexpectedResult [] []"
| "public_part (CRpc code _) = CRpc code None"
| "public_part (CSerialization _) = CSerialization []"
| "public_part (CUnsupportedDisplayAddress _) = CUnsupportedDisplayAddress []"
| "public_part e = e"

lemma map_error_public: "map_error e kind = map_error (public_part e) kind"
  by (cases e) simp_all

lemma map_error_not_bad_state [simp]: "\<not> is_bad_state (map_error e kind)"
  by (cases e) simp_all

lemma map_error_user_refused: "map_error e kind = UserRefused \<longleftrightarrow> e = CUserCancelled"
  by (cases e) simp_all

lemma map_error_auth_refused: "map_error e kind = AuthRefused \<longleftrightarrow> e = CAuthenticationRefused"
  by (cases e) simp_all

text \<open>
  What the host sees of a core error (the typed error and its displayed text) is a
  function of the error's public part: two errors that differ only in device messages,
  result payloads, serialization details or user input are indistinguishable, for every
  device family.
\<close>

lemma map_error_no_leak:
  assumes "public_part e = public_part e'"
  shows "map_error e kind = map_error e' kind
    \<and> hwi_error_display (map_error e kind) = hwi_error_display (map_error e' kind)"
  using assms map_error_public [of e kind] map_error_public [of e' kind] by simp

text \<open>
  Refusals are reported from typed errors only. The host sees \<open>UserRefused\<close> exactly when
  the core reported a user cancellation and \<open>AuthRefused\<close> exactly on a refused
  authentication, and a core error is never turned into \<open>BadState\<close> or \<open>Internal\<close>, the two
  errors that are about the bindings' own state.
\<close>

lemma map_error_refusals:
  "(map_error e kind = UserRefused \<longleftrightarrow> e = CUserCancelled)
   \<and> (map_error e kind = AuthRefused \<longleftrightarrow> e = CAuthenticationRefused)
   \<and> (map_error e kind = DeviceAlreadyUnlocked \<longleftrightarrow> (\<exists>c. e = CDeviceAlreadyUnlocked c))
   \<and> (\<nexists>m. map_error e kind = BadState m) \<and> (\<nexists>m. map_error e kind = Internal m)"
  by (cases e) simp_all

end
