(* ===== verification/Leases.thy ===== *)
theory Leases
  imports Ffi_Error
begin

text \<open>
  \<open>Leased<T>\<close> of \<open>state.rs\<close>: a cell whose exclusivity is a flag flipped by compare-and-swap.
  First the operations as the code has them, then the contract a client may rely on
  (\<open>lease_cell\<close>, and \<open>lease_table\<close> for a family of cells under keys), then the cell under
  several threads, where each atomic access of the code is one step.
\<close>

section \<open>The cell\<close>

record 'a leased =
  cell :: 'a
  is_leased :: bool

definition new_leased :: "'a \<Rightarrow> 'a leased" where
  "new_leased v = \<lparr>cell = v, is_leased = False\<rparr>"

text \<open>
  \<open>compare_exchange(false, true)\<close>: the pointer it returns is the cell of the value, so the
  leased value stands for it.
\<close>

definition acquire :: "'a leased \<Rightarrow> 'a leased option" where
  "acquire l = (if is_leased l then None else Some (l\<lparr>is_leased := True\<rparr>))"

definition release :: "'a leased \<Rightarrow> 'a leased" where
  "release l = l\<lparr>is_leased := False\<rparr>"

definition get_leased :: "'a leased \<Rightarrow> 'a" where
  "get_leased l = cell l"

definition with_leased :: "('a \<Rightarrow> 'a \<times> 'r) \<Rightarrow> 'a leased \<Rightarrow> 'a leased \<times> 'r option" where
  "with_leased f l = (case acquire l of
       None \<Rightarrow> (l, None)
     | Some l1 \<Rightarrow> (case f (cell l1) of (v, out) \<Rightarrow> (release (l1\<lparr>cell := v\<rparr>), Some out)))"

lemma new_leased_simps [simp]: "cell (new_leased v) = v" "\<not> is_leased (new_leased v)"
  by (simp_all add: new_leased_def)

lemma release_simps [simp]: "cell (release l) = cell l" "\<not> is_leased (release l)"
  by (simp_all add: release_def)

lemma acquire_eq [result_simps]:
  "acquire l = None \<longleftrightarrow> is_leased l"
  "acquire l = Some l' \<longleftrightarrow> \<not> is_leased l \<and> l' = l\<lparr>is_leased := True\<rparr>"
  by (auto simp: acquire_def)

section \<open>The contract of a lease\<close>

locale lease_cell =
  fixes acq :: "'s \<Rightarrow> 's option"
    and rel :: "'s \<Rightarrow> 's"
    and held :: "'s \<Rightarrow> bool"
  assumes acq_held: "held s \<Longrightarrow> acq s = None"
    and acq_free: "\<not> held s \<Longrightarrow> \<exists>t. acq s = Some t \<and> held t"
    and rel_free: "\<not> held (rel s)"
begin

lemma acq_None_iff: "acq s = None \<longleftrightarrow> held s"
  using acq_held acq_free by fastforce

lemma acq_Some: "acq s = Some t \<Longrightarrow> \<not> held s \<and> held t"
  using acq_held [of s] acq_free [of s] by (cases "held s") auto

lemma second_acq_fails: "acq s = Some t \<Longrightarrow> acq t = None"
  using acq_Some acq_held by blast

lemma acq_after_rel: "\<exists>t. acq (rel s) = Some t"
  using acq_free rel_free by blast

end

interpretation leased_cell: lease_cell acquire release is_leased
  by unfold_locales (auto simp: result_simps)

text \<open>Many cells, one state: an operation on one leaves the leases of the others alone.\<close>

locale lease_table =
  fixes kacq :: "'k \<Rightarrow> 's \<Rightarrow> 's option"
    and krel :: "'k \<Rightarrow> 's \<Rightarrow> 's"
    and kheld :: "'k \<Rightarrow> 's \<Rightarrow> bool"
  assumes kacq_held: "kheld k s \<Longrightarrow> kacq k s = None"
    and kacq_free: "\<not> kheld k s \<Longrightarrow> \<exists>t. kacq k s = Some t \<and> kheld k t"
    and krel_free: "\<not> kheld k (krel k s)"
    and kacq_other: "kacq k s = Some t \<Longrightarrow> j \<noteq> k \<Longrightarrow> kheld j t = kheld j s"
    and krel_other: "j \<noteq> k \<Longrightarrow> kheld j (krel k s) = kheld j s"

sublocale lease_table \<subseteq> at_key: lease_cell "kacq k" "krel k" "kheld k" for k
  by unfold_locales (auto simp: kacq_held krel_free dest: kacq_free)

text \<open>
  The books of a client: which of its owners holds which key. They are right when every
  recorded key is held, no two owners record the same key, and every held key is recorded.
\<close>

definition lease_books :: "('k \<Rightarrow> 's \<Rightarrow> bool) \<Rightarrow> ('i \<rightharpoonup> 'k) \<Rightarrow> 's \<Rightarrow> bool" where
  "lease_books kheld holder s \<longleftrightarrow>
     (\<forall>k. kheld k s \<longleftrightarrow> (\<exists>i. holder i = Some k))
     \<and> (\<forall>i j k. holder i = Some k \<longrightarrow> holder j = Some k \<longrightarrow> i = j)"

lemma lease_books_exclusive:
  "lease_books kheld holder s \<Longrightarrow> holder i = Some k \<Longrightarrow> holder j = Some k \<Longrightarrow> i = j"
  by (auto simp: lease_books_def)

lemma lease_books_held: "lease_books kheld holder s \<Longrightarrow> kheld k s \<longleftrightarrow> (\<exists>i. holder i = Some k)"
  by (auto simp: lease_books_def)

lemma lease_books_cong:
  "lease_books kheld holder s \<Longrightarrow> (\<And>k. kheld k t = kheld k s) \<Longrightarrow> lease_books kheld holder t"
  by (auto simp: lease_books_def)

context lease_table
begin

lemma kheld_after_acq: "kacq k s = Some t \<Longrightarrow> kheld j t \<longleftrightarrow> j = k \<or> kheld j s"
  using at_key.acq_Some kacq_other by metis

lemma kheld_after_rel: "kheld j (krel k s) \<longleftrightarrow> j \<noteq> k \<and> kheld j s"
  using krel_free krel_other by metis

text \<open>A new owner that acquires keeps the books right, and so does an owner that releases.\<close>

lemma books_acquire:
  assumes "lease_books kheld holder s" and "kacq k s = Some t" and "holder i = None"
  shows "lease_books kheld (holder(i \<mapsto> k)) t"
proof -
  from assms(2) have free: "\<not> kheld k s" by (simp add: at_key.acq_Some)
  with assms(1) have "\<nexists>j. holder j = Some k" by (simp add: lease_books_held)
  moreover have "(\<exists>j. (holder(i \<mapsto> k)) j = Some l) \<longleftrightarrow> l = k \<or> (\<exists>j. holder j = Some l)" for l
    using assms(3) by (metis fun_upd_apply option.distinct(1) option.inject)
  ultimately show ?thesis
    using assms(1) unfolding lease_books_def kheld_after_acq [OF assms(2)]
    by (auto split: if_splits)
qed

lemma books_release:
  assumes "lease_books kheld holder s" and "holder i = Some k"
  shows "lease_books kheld (holder(i := None)) (krel k s)"
proof -
  from assms have "j = i" if "holder j = Some k" for j
    using that by (auto dest: lease_books_exclusive)
  then have "(\<exists>j. (holder(i := None)) j = Some l) \<longleftrightarrow> l \<noteq> k \<and> (\<exists>j. holder j = Some l)" for l
    using assms(2) by (metis fun_upd_apply option.distinct(1) option.inject)
  with assms(1) show ?thesis
    unfolding lease_books_def kheld_after_rel by (auto split: if_splits)
qed

lemma books_no_lease: "lease_books kheld holder s \<Longrightarrow> holder i = None \<Longrightarrow> lease_books kheld (holder(i := None)) s"
  by (simp add: fun_upd_idem)

end

text \<open>
  An object that owns at most one lease: a call keeps the lease and leaves every lease of the
  table alone, or ends with the object's own lease released and the others as they were.
\<close>

locale lease_client = lease_table kacq krel kheld
  for kacq :: "'k \<Rightarrow> 's \<Rightarrow> 's option" and krel :: "'k \<Rightarrow> 's \<Rightarrow> 's" and kheld :: "'k \<Rightarrow> 's \<Rightarrow> bool" +
  fixes okey :: "'o \<Rightarrow> 'k option"
    and ocall :: "'c \<Rightarrow> 'o \<Rightarrow> 's \<Rightarrow> 'o \<times> 's \<times> 'r"
    and oinv :: "'o \<Rightarrow> bool"
  assumes ocall_inv: "oinv ob \<Longrightarrow> ocall c ob s = (ob', s', r) \<Longrightarrow> oinv ob'"
    and ocall_lease: "oinv ob \<Longrightarrow> ocall c ob s = (ob', s', r) \<Longrightarrow>
      (\<exists>t. (\<forall>k. kheld k t = kheld k s)
         \<and> (okey ob' = okey ob \<and> s' = t
            \<or> okey ob' = None \<and> s' = (case okey ob of None \<Rightarrow> t | Some k \<Rightarrow> krel k t)))"
begin

lemma books_call:
  assumes "oinv ob" and "ocall c ob s = (ob', s', r)"
    and "lease_books kheld holder s" and "holder i = okey ob"
  shows "lease_books kheld (holder(i := okey ob')) s'"
proof -
  obtain t where t: "\<forall>k. kheld k t = kheld k s"
    and or: "okey ob' = okey ob \<and> s' = t
      \<or> okey ob' = None \<and> s' = (case okey ob of None \<Rightarrow> t | Some k \<Rightarrow> krel k t)"
    using ocall_lease [OF assms(1, 2)] by blast
  have bt: "lease_books kheld holder t" by (rule lease_books_cong [OF assms(3)]) (simp add: t)
  from or show ?thesis
  proof
    assume "okey ob' = okey ob \<and> s' = t"
    with bt assms(4) show ?thesis by (simp add: fun_upd_idem)
  next
    assume rel: "okey ob' = None \<and> s' = (case okey ob of None \<Rightarrow> t | Some k \<Rightarrow> krel k t)"
    show ?thesis
    proof (cases "okey ob")
      case None
      with rel bt assms(4) books_no_lease [OF bt, of i] show ?thesis by simp
    next
      case (Some k)
      with rel books_release [OF bt, of i k] assms(4) show ?thesis by simp
    qed
  qed
qed

lemma call_releases:
  assumes "oinv ob" and "ocall c ob s = (ob', s', r)" and "okey ob = Some k" and "okey ob' = None"
  shows "\<not> kheld k s' \<and> (\<forall>j. j \<noteq> k \<longrightarrow> kheld j s' = kheld j s)"
  using ocall_lease [OF assms(1, 2)] unfolding assms(3, 4)
  by (elim exE conjE disjE) (simp_all add: kheld_after_rel)

lemma call_other: 
  assumes "oinv ob" and "ocall c ob s = (ob', s', r)" and "okey ob \<noteq> Some j"
  shows "kheld j s' = kheld j s"
  using ocall_lease [OF assms(1, 2)] assms(3) by (auto simp: kheld_after_rel split: option.splits)

end

section \<open>The cell under threads\<close>

text \<open>
  Threads share one cell. Each atomic access of the code is an action of a thread: a
  compare-and-swap that wins or loses, a run of a function on the value (through the pointer that
  \<open>acquire\<close> gave out, or inside \<open>with\<close>), with its result, and the store of \<open>false\<close>.
\<close>

datatype ('a, 'r) lease_act =
    CasOk nat
  | CasFail nat
  | Run nat "'a \<Rightarrow> 'a \<times> 'r" 'r
  | StoreFalse nat

fun actor :: "('a, 'r) lease_act \<Rightarrow> nat" where
  "actor (CasOk t) = t"
| "actor (CasFail t) = t"
| "actor (Run t f r) = t"
| "actor (StoreFalse t) = t"

record 'a lease_sys =
  shared :: "'a leased"
  holding :: "nat \<Rightarrow> bool"

inductive lease_step :: "('a, 'r) lease_act \<Rightarrow> 'a lease_sys \<Rightarrow> 'a lease_sys \<Rightarrow> bool" where
  cas_ok: "\<lbrakk>acquire (shared s) = Some l; \<not> holding s t\<rbrakk> \<Longrightarrow>
     lease_step (CasOk t) s (s\<lparr>shared := l, holding := (holding s)(t := True)\<rparr>)"
| cas_fail: "acquire (shared s) = None \<Longrightarrow> lease_step (CasFail t) s s"
| run_cell: "\<lbrakk>holding s t; f (get_leased (shared s)) = (v, r)\<rbrakk> \<Longrightarrow>
     lease_step (Run t f r) s (s\<lparr>shared := (shared s)\<lparr>cell := v\<rparr>\<rparr>)"
| store_false: "holding s t \<Longrightarrow>
     lease_step (StoreFalse t) s (s\<lparr>shared := release (shared s), holding := (holding s)(t := False)\<rparr>)"

inductive_simps lease_step_simps:
  "lease_step (CasOk t) s s'" "lease_step (CasFail t) s s'" "lease_step (Run t f r) s s'"
  "lease_step (StoreFalse t) s s'"

inductive lease_run :: "('a, 'r) lease_act list \<Rightarrow> 'a lease_sys \<Rightarrow> 'a lease_sys \<Rightarrow> bool" where
  run_nil: "lease_run [] s s"
| run_cons: "lease_step a s s1 \<Longrightarrow> lease_run as s1 s2 \<Longrightarrow> lease_run (a # as) s s2"

inductive_simps lease_run_simps: "lease_run [] s s'" "lease_run (a # as) s s'"

lemma lease_run_append: "lease_run (as @ bs) s s2 \<longleftrightarrow> (\<exists>s1. lease_run as s s1 \<and> lease_run bs s1 s2)"
  by (induction as arbitrary: s) (auto simp: lease_run_simps)

definition lease_init :: "'a lease_sys \<Rightarrow> bool" where
  "lease_init s \<longleftrightarrow> \<not> is_leased (shared s) \<and> (\<forall>t. \<not> holding s t)"

definition lease_inv :: "'a lease_sys \<Rightarrow> bool" where
  "lease_inv s \<longleftrightarrow> (is_leased (shared s) \<longleftrightarrow> (\<exists>t. holding s t))
     \<and> (\<forall>i j. holding s i \<longrightarrow> holding s j \<longrightarrow> i = j)"

lemma lease_inv_init: "lease_init s \<Longrightarrow> lease_inv s"
  by (simp add: lease_init_def lease_inv_def)

lemma lease_inv_step: "lease_inv s \<Longrightarrow> lease_step a s s' \<Longrightarrow> lease_inv s'"
  by (cases a) (auto simp: lease_step_simps lease_inv_def result_simps)

lemma lease_inv_run: "lease_run as s s' \<Longrightarrow> lease_inv s \<Longrightarrow> lease_inv s'"
  by (induction rule: lease_run.induct) (blast intro: lease_inv_step)+

text \<open>
  While thread \<open>t\<close> has the lease, whatever the others try is a compare-and-swap that loses, and
  nothing that \<open>t\<close> does not do itself happens to the value.
\<close>

lemma held_step:
  assumes "lease_inv s" and "holding s t" and "lease_step a s s'" and "actor a \<noteq> t"
  shows "s' = s \<and> a = CasFail (actor a)"
  using assms by (cases a) (auto simp: lease_step_simps lease_inv_def result_simps)

lemma held_run:
  assumes "lease_run as s s'" and "lease_inv s" and "holding s t" and "\<forall>a \<in> set as. actor a \<noteq> t"
  shows "s' = s \<and> (\<forall>a \<in> set as. a = CasFail (actor a))"
  using assms by (induction rule: lease_run.induct) (use held_step in fastforce)+

text \<open>A list with one action of \<open>t\<close> in it.\<close>

lemma one_action:
  assumes "filter (\<lambda>a. actor a = t) as = [x]"
  obtains us vs where "as = us @ x # vs" "\<forall>a \<in> set us. actor a \<noteq> t" "\<forall>a \<in> set vs. actor a \<noteq> t"
    "actor x = t"
proof -
  from assms have "filter (\<lambda>a. actor a = t) as = x # []" by simp
  from filter_eq_ConsD [OF this] obtain us vs where "as = us @ x # vs" "actor x = t"
    "\<forall>a \<in> set us. actor a \<noteq> t" and rest: "[] = filter (\<lambda>a. actor a = t) vs" by blast
  moreover have "\<forall>a \<in> set vs. actor a \<noteq> t" using rest [symmetric] by (simp add: filter_empty_conv)
  ultimately show thesis using that by blast
qed

text \<open>A swap that loses is a \<open>with\<close> that refuses and does not run its function.\<close>

lemma refused_with: "lease_step (CasFail t) s s' \<Longrightarrow> with_leased f (shared s) = (shared s', None)"
  by (simp add: lease_step_simps with_leased_def)

text \<open>
  C37: \<open>with\<close> is atomic under interleaving. Let a thread do what \<open>with\<close> does, a
  compare-and-swap, one run of the function, a store, and let other threads do anything they can
  in between. Then the three steps together have the effect and the result of
  \<open>with\<close> on the value the swap found, and all the others achieved was to lose their
  compare-and-swaps.
\<close>

theorem with_leased_atomic:
  fixes f :: "'a \<Rightarrow> 'a \<times> 'r" and during :: "('a, 'r) lease_act list"
  assumes "lease_init s0" and "lease_run before s0 s"
    and "lease_run (CasOk t # during @ [StoreFalse t]) s s'"
    and "filter (\<lambda>a. actor a = t) during = [Run t f out]"
  shows "with_leased f (shared s) = (shared s', Some out) \<and> holding s' = holding s
    \<and> (\<forall>a \<in> set during. actor a \<noteq> t \<longrightarrow> a = CasFail (actor a))"
proof -
  have inv: "lease_inv s" using lease_inv_run [OF assms(2) lease_inv_init [OF assms(1)]] .
  from assms(4) obtain us vs where during: "during = us @ Run t f out # vs"
    and us: "\<forall>a \<in> set us. actor a \<noteq> t" and vs: "\<forall>a \<in> set vs. actor a \<noteq> t" by (rule one_action)
  from assms(3) obtain s1 s2 s3 s4 where s1: "lease_step (CasOk t :: ('a, 'r) lease_act) s s1" and s2: "lease_run us s1 s2"
    and s3: "lease_step (Run t f out) s2 s3" and s4: "lease_run vs s3 s4"
    and s5: "lease_step (StoreFalse t :: ('a, 'r) lease_act) s4 s'"
    unfolding during append.assoc append_Cons lease_run_simps lease_run_append
    by blast
  have inv1: "lease_inv s1" by (rule lease_inv_step [OF inv s1])
  have held1: "holding s1 t" using s1 by (auto simp: lease_step_simps)
  note quiet1 = held_run [OF s2 inv1 held1 us]
  have held3: "holding s3 t" using s3 by (auto simp: lease_step_simps)
  have inv3: "lease_inv s3" using quiet1 lease_inv_step [OF _ s3] inv1 by simp
  note quiet2 = held_run [OF s4 inv3 held3 vs]
  have "with_leased f (shared s) = (shared s', Some out)" "holding s' = holding s"
    using s1 s3 s5 quiet1 quiet2
    by (auto simp: lease_step_simps with_leased_def acquire_def release_def get_leased_def
        fun_upd_idem split: if_splits)
  then show ?thesis using quiet1 quiet2 during by auto
qed

text \<open>Thread 1 increments the cell while thread 2 tries to.\<close>

definition sample_free :: "nat lease_sys" where
  "sample_free = \<lparr>shared = new_leased 5, holding = (\<lambda>_. False)\<rparr>"

theorem with_leased_atomic_witness:
  "\<exists>s' :: nat lease_sys. with_leased (\<lambda>n. (n + 1, n)) (shared sample_free) = (shared s', Some 5)
    \<and> cell (shared s') = 6 \<and> holding s' = holding sample_free"
proof -
  let ?inc = "\<lambda>n. (n + 1, n)"
  let ?during = "[CasFail 2, Run 1 ?inc 5, CasFail 2]"
  obtain s' where run: "lease_run (CasOk 1 # ?during @ [StoreFalse 1]) sample_free s'"
    and six: "cell (shared s') = 6"
    by (force simp: lease_run_simps lease_step_simps sample_free_def acquire_def get_leased_def
        release_def)
  have "lease_init sample_free" by (simp add: lease_init_def sample_free_def)
  from with_leased_atomic [OF this run_nil run, of ?inc 5]
  have "with_leased ?inc (shared sample_free) = (shared s', Some 5)" "holding s' = holding sample_free"
    by simp_all
  with six show ?thesis by blast
qed

end
