(* ===== verification/Crates.thy ===== *)
theory Crates
  imports Ffi_Error
begin

text \<open>
  The third-party crates the bindings are built on (bitcoin, miniscript, base64ct and the bhwi
  core), as far as the code touches them. Data that the code takes apart has the fields it
  reads; data it only moves around is kept as the bytes or the text that identify it. Every
  function of those crates is a field of the record \<open>crates\<close>, so all definitions of the model
  hold for any implementation, and what a theorem needs of the documented behaviour is one of
  the named hypotheses at the end of this theory.
\<close>

section \<open>bitcoin: keys and paths\<close>

datatype child_number = Normal u32 | Hardened u32

type_synonym derivation_path = "child_number list"
type_synonym fingerprint = bytes
type_synonym key_origin = "fingerprint \<times> derivation_path"

fun is_hardened :: "child_number \<Rightarrow> bool" where
  "is_hardened (Normal i) = False"
| "is_hardened (Hardened i) = True"

datatype network_kind = Main | Test

record xpub =
  xpub_network :: network_kind
  xpub_depth :: u8
  xpub_child_number :: child_number
  xpub_rest :: bytes \<comment> \<open>parent fingerprint, chain code and public key\<close>

section \<open>bitcoin: transactions and PSBTs\<close>

type_synonym script = bytes
type_synonym witness_stack = "bytes list"
type_synonym wtxid = bytes
type_synonym amount = u64

record outpoint =
  op_txid :: bytes
  op_vout :: u32

record txin =
  txin_previous_output :: outpoint
  txin_rest :: bytes

record txout =
  txout_value :: amount
  txout_script_pubkey :: script

record transaction =
  tx_input :: "txin list"
  tx_output :: "txout list"
  tx_rest :: bytes \<comment> \<open>version and lock time\<close>

record ecdsa_sig =
  es_signature :: bytes
  es_sighash_type :: u32

record taproot_sig =
  ts_signature :: bytes
  ts_sighash_type :: u8

text \<open>
  \<open>BTreeMap\<close>s are association lists, iterated front to back; lookups are \<open>map_of\<close>. Public keys
  and leaf hashes are the bytes that identify them.
\<close>

record psbt_input =
  pi_non_witness_utxo :: "transaction option"
  pi_witness_utxo :: "txout option"
  pi_partial_sigs :: "(bytes \<times> ecdsa_sig) list"
  pi_sighash_type :: "u32 option"
  pi_redeem_script :: "script option"
  pi_witness_script :: "script option"
  pi_final_script_sig :: "script option"
  pi_final_script_witness :: "witness_stack option"
  pi_tap_key_sig :: "taproot_sig option"
  pi_tap_script_sigs :: "((bytes \<times> bytes) \<times> taproot_sig) list"
  pi_rest :: bytes

definition default_psbt_input :: psbt_input where
  "default_psbt_input = \<lparr>pi_non_witness_utxo = None, pi_witness_utxo = None,
     pi_partial_sigs = [], pi_sighash_type = None, pi_redeem_script = None,
     pi_witness_script = None, pi_final_script_sig = None, pi_final_script_witness = None,
     pi_tap_key_sig = None, pi_tap_script_sigs = [], pi_rest = []\<rparr>"

record psbt =
  ps_unsigned_tx :: transaction
  ps_inputs :: "psbt_input list"
  ps_rest :: bytes

text \<open>One step of \<open>Script::instructions\<close>: a push of data or any other opcode.\<close>

datatype instruction = PushBytes bytes | Op u8

fun push_bytes :: "instruction \<Rightarrow> bytes option" where
  "push_bytes (PushBytes bs) = Some bs"
| "push_bytes (Op n) = None"

section \<open>miniscript\<close>

datatype wildcard = NoWildcard | UnhardenedWildcard | HardenedWildcard

datatype single_pub_key =
    FullKey bool bytes \<comment> \<open>its \<open>compressed\<close> flag and the key\<close>
  | XOnlyKey bytes

record single_key =
  sk_origin :: "key_origin option"
  sk_key :: single_pub_key

record desc_xkey =
  xk_origin :: "key_origin option"
  xk_xkey :: xpub
  xk_derivation_path :: derivation_path
  xk_wildcard :: wildcard

record desc_multi_xkey =
  mx_origin :: "key_origin option"
  mx_xkey :: xpub
  mx_derivation_paths :: "derivation_path list"
  mx_wildcard :: wildcard

datatype descriptor_public_key = Single single_key | XPub desc_xkey | MultiXPub desc_multi_xkey

datatype descriptor = Descriptor string
datatype definite_descriptor = DefiniteDescriptor string
datatype core_wallet_policy = CoreWalletPolicy string

section \<open>bhwi: commands, responses and transmits\<close>

datatype host_pin = HostPin string

datatype ledger_version = V1 | V2

record ledger_wallet_policy =
  lw_name :: string
  lw_version :: ledger_version
  lw_policy :: core_wallet_policy

datatype device_context =
    TrezorManagementPin host_pin
  | KeepKeyManagementPin host_pin
  | LedgerContext ledger_wallet_policy "bytes option"
  | BitBoxContext core_wallet_policy
  | SpecterContext core_wallet_policy

datatype core_multisig_type = CoreMsLegacy | CoreMsShWit | CoreMsWit

record multisig_display_address =
  md_threshold :: u8
  md_sorted :: bool
  md_address_type :: core_multisig_type
  md_keys :: "descriptor_public_key list"

datatype display_address =
    ByPath derivation_path bool "core_address_type option"
  | ByDescriptor u32 bool bool string
  | ByMultisig multisig_display_address

datatype core_command =
    CmdUnlock "core_network option"
  | CmdGetVersion
  | CmdPromptPin
  | CmdSendPin "device_context option"
  | CmdGetMasterFingerprint
  | CmdGetXpub derivation_path bool
  | CmdDisplayAddress display_address "device_context option"
  | CmdRegisterWallet string core_wallet_policy
  | CmdSignMessage bytes derivation_path
  | CmdSignTx psbt "device_context option"

record core_info =
  ci_version :: string
  ci_firmware :: "string option"
  ci_initialized :: "bool option"
  ci_networks :: "core_network list"
  ci_label :: "string option"
  ci_on_device_passphrase_entry :: "bool option"
  ci_needs_pin_sent :: "bool option"
  ci_needs_passphrase_sent :: "bool option"

datatype core_registration = CoreRegComplete "bytes option" | CoreRegPending

datatype core_response =
    RespTaskDone
  | RespDeviceAction bool
  | RespInfo core_info
  | RespMasterFingerprint fingerprint
  | RespXpub xpub
  | RespAddress string
  | RespSignature u8 bytes
  | RespSignedPsbt psbt
  | RespWalletRegistration core_registration
  | RespEncryptionKey bytes
  | RespOther string \<comment> \<open>any response the bindings do not name\<close>

datatype core_pin_matrix_kind = CorePinCurrent | CorePinNewFirst | CorePinNewSecond
  | CorePinUnknown "32 word"

datatype core_host_request =
    CorePinMatrix core_pin_matrix_kind
  | CoreRecoveryCharacter u32 u32

datatype core_recipient = CoreToDevice | CoreToPinServer string | CoreToHost core_host_request

record core_transmit =
  ct_payload :: bytes
  ct_encrypted :: bool
  ct_recipient :: core_recipient

section \<open>The functions of the crates\<close>

record crates =
  path_from_str :: "string \<Rightarrow> derivation_path option"
  child_to_u32 :: "child_number \<Rightarrow> u32"
  xpub_from_str :: "string \<Rightarrow> xpub option"
  xpub_to_string :: "xpub \<Rightarrow> string"
  fingerprint_from_str :: "string \<Rightarrow> fingerprint option"
  fingerprint_to_string :: "fingerprint \<Rightarrow> string"
  network_kind_of :: "core_network \<Rightarrow> network_kind"
  txid_to_string :: "bytes \<Rightarrow> string"
  address_from_script :: "script \<Rightarrow> core_network \<Rightarrow> string option"
  amount_checked_add :: "amount \<Rightarrow> amount \<Rightarrow> amount option"
  amount_checked_sub :: "amount \<Rightarrow> amount \<Rightarrow> amount option"
  is_p2wsh :: "script \<Rightarrow> bool"
  is_p2wpkh :: "script \<Rightarrow> bool"
  script_instructions :: "script \<Rightarrow> (string + instruction) list"
  psbt_deserialize :: "bytes \<Rightarrow> psbt option"
  psbt_serialize :: "psbt \<Rightarrow> bytes"
  compute_wtxid :: "transaction \<Rightarrow> wtxid"
  ecdsa_serialize :: "ecdsa_sig \<Rightarrow> bytes"
  taproot_serialize :: "taproot_sig \<Rightarrow> bytes"
  ecdsa_hash_ty :: "psbt_input \<Rightarrow> u32 option"
  taproot_hash_ty :: "psbt_input \<Rightarrow> u8 option"
  serialize_compact :: "bytes \<Rightarrow> bytes"
  b64_decode :: "string \<Rightarrow> bytes option"
  b64_encode :: "bytes \<Rightarrow> string"
  desc_from_str :: "string \<Rightarrow> descriptor option"
  desc_is_bare :: "descriptor \<Rightarrow> bool"
  desc_iter_pk :: "descriptor \<Rightarrow> descriptor_public_key list"
  desc_to_string :: "descriptor \<Rightarrow> string"
  desc_into_single :: "descriptor \<Rightarrow> string + descriptor list"
  desc_derive_at_index :: "descriptor \<Rightarrow> u32 \<Rightarrow> string + definite_descriptor"
  definite_address :: "definite_descriptor \<Rightarrow> core_network \<Rightarrow> string + string"
  key_from_str :: "string \<Rightarrow> descriptor_public_key option"
  policy_from_descriptor :: "descriptor \<Rightarrow> core_wallet_policy option"
  extract_parts :: "core_wallet_policy \<Rightarrow> (string \<times> descriptor_public_key list) option"
  host_pin_new :: "string \<Rightarrow> host_pin option"
  ledger_policy_id :: "ledger_wallet_policy \<Rightarrow> bytes option"
  status_word_from :: "u16 \<Rightarrow> u16 option"
  status_word_ok :: u16

section \<open>What theorems assume of the crates\<close>

text \<open>bip32's encoding of a child number: hardened indices have the top bit set.\<close>

definition child_numbers_ok :: "crates \<Rightarrow> bool" where
  "child_numbers_ok C \<longleftrightarrow>
     (\<forall>i. unat i < 2147483648 \<longrightarrow> child_to_u32 C (Normal i) = i
       \<and> child_to_u32 C (Hardened i) = i + 2147483648)"

text \<open>\<open>Amount\<close> is a \<open>u64\<close> of satoshi; its checked operations return \<open>None\<close> on overflow.\<close>

definition amounts_ok :: "crates \<Rightarrow> bool" where
  "amounts_ok C \<longleftrightarrow>
     (\<forall>a b. amount_checked_add C a b =
        (if unat a + unat b < 2 ^ 64 then Some (a + b) else None))
     \<and> (\<forall>a b. amount_checked_sub C a b = (if unat b \<le> unat a then Some (a - b) else None))"

text \<open>Base64 decodes what it encodes, and its alphabet is graphic ASCII.\<close>

definition base64_ok :: "crates \<Rightarrow> bool" where
  "base64_ok C \<longleftrightarrow>
     (\<forall>bs. b64_decode C (b64_encode C bs) = Some bs \<and> no_space_ascii (b64_encode C bs))"

end
