(* ===== verification/Samples.thy ===== *)
theory Samples
  imports Crates
begin

text \<open>
  One concrete implementation of the third-party functions, on which the theorems with
  hypotheses about them are shown to apply. It is small but not degenerate: texts that parse
  and texts that do not, hardened and unhardened keys, a Base64 that is a real encoding, and
  \<open>u64\<close> arithmetic with its overflow check.
\<close>

definition sample_b64_encode :: "bytes \<Rightarrow> string" where
  "sample_b64_encode bs =
     concat (map (\<lambda>b. [char_of (65 + unat b div 16), char_of (65 + unat b mod 16)]) bs)"

fun sample_b64_decode :: "string \<Rightarrow> bytes option" where
  "sample_b64_decode [] = Some []"
| "sample_b64_decode [a] = None"
| "sample_b64_decode (a # b # s) =
     (if byte_in 65 80 a \<and> byte_in 65 80 b
      then map_option (Cons (word_of_nat ((of_char a - 65) * 16 + (of_char b - 65))))
             (sample_b64_decode s)
      else None)"

definition sample_xpub :: xpub where
  "sample_xpub = \<lparr>xpub_network = Test, xpub_depth = 3, xpub_child_number = Hardened 0,
     xpub_rest = [7]\<rparr>"

definition sample_origin :: key_origin where
  "sample_origin = ([245, 172, 194, 253], [Hardened 84, Hardened 1, Hardened 0])"

definition sample_account_key :: descriptor_public_key where
  "sample_account_key = MultiXPub \<lparr>mx_origin = Some sample_origin, mx_xkey = sample_xpub,
     mx_derivation_paths = [[Normal 0], [Normal 1]], mx_wildcard = UnhardenedWildcard\<rparr>"

definition sample_concrete_key :: descriptor_public_key where
  "sample_concrete_key = Single \<lparr>sk_origin = Some sample_origin, sk_key = FullKey True [2, 9]\<rparr>"

definition sample_txin :: txin where
  "sample_txin = \<lparr>txin_previous_output = \<lparr>op_txid = [1], op_vout = 0\<rparr>, txin_rest = []\<rparr>"

definition sample_tx :: transaction where
  "sample_tx = \<lparr>tx_input = [sample_txin],
     tx_output = [\<lparr>txout_value = 9000, txout_script_pubkey = [0]\<rparr>], tx_rest = [2]\<rparr>"

definition sample_psbt_input :: psbt_input where
  "sample_psbt_input = default_psbt_input
     \<lparr>pi_witness_utxo := Some \<lparr>txout_value = 10000, txout_script_pubkey = [0]\<rparr>,
      pi_partial_sigs := [([3], \<lparr>es_signature = [4], es_sighash_type = 1\<rparr>)]\<rparr>"

definition sample_psbt :: psbt where
  "sample_psbt = \<lparr>ps_unsigned_tx = sample_tx, ps_inputs = [sample_psbt_input], ps_rest = []\<rparr>"

text \<open>An identifier that tells \<open>sample_tx\<close> from every other transaction.\<close>

definition sample_wtxid :: "transaction \<Rightarrow> wtxid" where
  "sample_wtxid t = (if t = sample_tx then [2] else 0 # tx_rest t)"

definition sample_path_from_str :: "string \<Rightarrow> derivation_path option" where
  "sample_path_from_str s =
     (if s = ''84h'' then Some [Hardened 84] else if s = ''86h'' then Some [Hardened 86]
      else if s = [] then Some [] else None)"

definition sample_key_from_str :: "string \<Rightarrow> descriptor_public_key option" where
  "sample_key_from_str s = (if s = ''key'' then Some sample_concrete_key
     else if s = ''account'' then Some sample_account_key else None)"

definition sample_descriptor :: descriptor where
  "sample_descriptor = Descriptor ''wpkh(account)''"

definition sample_crates :: crates where
  "sample_crates = \<lparr>
    path_from_str = sample_path_from_str,
    child_to_u32 = (\<lambda>c. case c of Normal i \<Rightarrow> i | Hardened i \<Rightarrow> i + 2147483648),
    xpub_from_str = (\<lambda>s. if s = ''account'' then Some sample_xpub else None),
    xpub_to_string = (\<lambda>x. ''account''),
    fingerprint_from_str = (\<lambda>s. if s = ''f5acc2fd'' then Some [245, 172, 194, 253] else None),
    fingerprint_to_string = (\<lambda>f. ''f5acc2fd''),
    network_kind_of = (\<lambda>n. if n = CoreBitcoin then Main else Test),
    txid_to_string = (\<lambda>t. ''txid''),
    address_from_script = (\<lambda>s n. if s = [0] then Some ''tb1q'' else None),
    amount_checked_add = (\<lambda>a b. if unat a + unat b < 2 ^ 64 then Some (a + b) else None),
    amount_checked_sub = (\<lambda>a b. if unat b \<le> unat a then Some (a - b) else None),
    is_p2wsh = (\<lambda>s. s = [0, 32]),
    is_p2wpkh = (\<lambda>s. s = [0, 20]),
    script_instructions = (\<lambda>s. map (\<lambda>b. Inr (PushBytes [b])) s),
    psbt_deserialize = (\<lambda>bs. if bs = [112] then Some sample_psbt else None),
    psbt_serialize = (\<lambda>p. if p = sample_psbt then [112] else [0]),
    compute_wtxid = sample_wtxid,
    ecdsa_serialize = es_signature,
    taproot_serialize = ts_signature,
    ecdsa_hash_ty = (\<lambda>i. Some (case pi_sighash_type i of None \<Rightarrow> 1 | Some t \<Rightarrow> t)),
    taproot_hash_ty = (\<lambda>i. Some (case pi_sighash_type i of None \<Rightarrow> 0 | Some t \<Rightarrow> ucast t)),
    serialize_compact = (\<lambda>s. s),
    b64_decode = sample_b64_decode,
    b64_encode = sample_b64_encode,
    desc_from_str = (\<lambda>s. if s = ''bad'' then None else Some (Descriptor s)),
    desc_is_bare = (\<lambda>d. d = Descriptor ''bare''),
    desc_iter_pk = (\<lambda>d. [sample_account_key]),
    desc_to_string = (\<lambda>d. case d of Descriptor s \<Rightarrow> s @ ''#checksum''),
    desc_into_single = (\<lambda>d. Inr [Descriptor ''receive'', Descriptor ''change'']),
    desc_derive_at_index = (\<lambda>d i. if unat i < 2147483648
       then Inr (DefiniteDescriptor (case d of Descriptor s \<Rightarrow> s)) else Inl ''hardened''),
    definite_address = (\<lambda>d n. Inr (case d of DefiniteDescriptor s \<Rightarrow> s)),
    key_from_str = sample_key_from_str,
    policy_from_descriptor = (\<lambda>d. case d of Descriptor s \<Rightarrow> Some (CoreWalletPolicy s)),
    extract_parts = (\<lambda>p. Some (''wpkh(@0/**)'', [sample_account_key])),
    host_pin_new = (\<lambda>s. if length s \<le> 9 then Some (HostPin s) else None),
    ledger_policy_id = (\<lambda>p. Some (replicate 32 5)),
    status_word_from = (\<lambda>w. if w = 36864 \<or> w = 57344 then Some w else None),
    status_word_ok = 36864\<rparr>"

lemma sample_child_numbers_ok: "child_numbers_ok sample_crates"
  by (simp add: child_numbers_ok_def sample_crates_def)

lemma sample_amounts_ok: "amounts_ok sample_crates"
  by (simp add: amounts_ok_def sample_crates_def)

lemma sample_b64_step:
  "sample_b64_decode (sample_b64_encode (b # bs)) =
     map_option (Cons b) (sample_b64_decode (sample_b64_encode bs))"
proof -
  obtain q r where q: "unat b div 16 = q" "q < 16" and r: "unat b mod 16 = r" "r < 16"
    using unsigned_less [of b, where ?'a = nat] by (simp add: less_mult_imp_div_less)
  have "of_char (char_of (65 + q) :: char) = (65 + q :: nat)"
    and "of_char (char_of (65 + r) :: char) = (65 + r :: nat)"
    using q r by simp_all
  moreover have "q * 16 + r = unat b" using q r div_mult_mod_eq [of "unat b" 16] by simp
  then have "(word_of_nat (q * 16 + r) :: u8) = b" by (metis of_nat_unat ucast_id)
  ultimately show ?thesis using q r
    by (simp add: sample_b64_encode_def byte_in_def del: of_nat_add of_nat_mult)
qed

lemma sample_b64_roundtrip: "sample_b64_decode (sample_b64_encode bs) = Some bs"
  by (induction bs) (simp_all add: sample_b64_step, simp add: sample_b64_encode_def)

lemma sample_b64_graphic: "no_space_ascii (sample_b64_encode bs)"
proof -
  have "byte_in 33 126 (char_of (65 + n))" if "n < 16" for n :: nat
    using that by (simp add: byte_in_def)
  moreover have "unat b div 16 < 16" "unat b mod 16 < 16" for b :: u8
    using unsigned_less [of b, where ?'a = nat] by (simp_all add: less_mult_imp_div_less)
  ultimately show ?thesis
    by (auto simp: no_space_ascii_def sample_b64_encode_def list_all_iff)
qed

lemma sample_base64_ok: "base64_ok sample_crates"
  by (simp add: base64_ok_def sample_crates_def sample_b64_roundtrip sample_b64_graphic)

end
