(* ===== verification/Handles.thy ===== *)
theory Handles
  imports Leases Samples
begin

text \<open>
  The host's long-lived objects of \<open>state.rs\<close>: \<open>NoiseHandle\<close> with its persisted configuration
  and pairing-code slot, \<open>ColdcardEncryption\<close>, \<open>HostPassphraseHandle\<close> and
  \<open>SpecterFrameDecoder\<close>, and the store of the leased handles that interpreters borrow from.
  The core's own states (\<open>NoiseState\<close>, \<open>Engine\<close>, \<open>ResponseDecoder\<close>) are type variables.
\<close>

section \<open>Noise pairing\<close>

record noise_config =
  nc_privkey :: "bytes option"
  nc_device_pubkeys :: "bytes list"

record noise_config_data =
  app_static_privkey :: "bytes option"
  device_static_pubkeys :: "bytes list"

text \<open>The core's noise state: \<open>NoiseState::new\<close>, its \<open>data\<close>, and \<open>NoiseConfigData\<close>.\<close>

record 'n noise_crate =
  noise_state_new :: "noise_config_data option \<Rightarrow> 'n"
  noise_state_data :: "'n \<Rightarrow> noise_config_data"
  noise_data_default :: noise_config_data
  add_device_static_pubkey :: "noise_config_data \<Rightarrow> bytes \<Rightarrow> noise_config_data"

definition noise_config_from :: "noise_config_data \<Rightarrow> noise_config" where
  "noise_config_from data = \<lparr>nc_privkey = app_static_privkey data,
     nc_device_pubkeys = device_static_pubkeys data\<rparr>"

fun add_pubkeys ::
    "'n noise_crate \<Rightarrow> bytes list \<Rightarrow> noise_config_data \<Rightarrow> hwi_error + noise_config_data" where
  "add_pubkeys N [] data = Inr data"
| "add_pubkeys N (pubkey # pubkeys) data =
     (if length pubkey \<noteq> 32 then Inl (invalid ''noise device pubkey must be 32 bytes'')
      else add_pubkeys N pubkeys (add_device_static_pubkey N data pubkey))"

definition noise_data_try_from ::
    "'n noise_crate \<Rightarrow> noise_config \<Rightarrow> hwi_error + noise_config_data" where
  "noise_data_try_from N config =
     (let data = noise_data_default N in
      and_then (case nc_privkey config of
          None \<Rightarrow> Inr data
        | Some privkey \<Rightarrow>
            (if length privkey = 32 then Inr (data\<lparr>app_static_privkey := Some privkey\<rparr>)
             else Inl (invalid ''noise private key must be 32 bytes'')))
        (add_pubkeys N (nc_device_pubkeys config)))"

record 'n noise_handle =
  nh_state :: "'n leased"
  nh_pairing_code :: "string option mutex"

text \<open>The hook: a poisoned slot is left alone.\<close>

definition pairing_hook :: "string \<Rightarrow> string option mutex \<Rightarrow> string option mutex" where
  "pairing_hook code sink = (case lock sink of
       None \<Rightarrow> sink
     | Some _ \<Rightarrow> sink\<lparr>guarded := Some code\<rparr>)"

definition noise_handle_new ::
    "'n noise_crate \<Rightarrow> noise_config option \<Rightarrow> hwi_error + 'n noise_handle" where
  "noise_handle_new N config =
     and_then (transpose_result (map_option (noise_data_try_from N) config)) (\<lambda>data.
     Inr \<lparr>nh_state = new_leased (noise_state_new N data), nh_pairing_code = new_mutex None\<rparr>)"

definition noise_export ::
    "'n noise_crate \<Rightarrow> 'n noise_handle \<Rightarrow> 'n noise_handle \<times> (hwi_error + noise_config)" where
  "noise_export N h =
     (case with_leased (\<lambda>st. (st, noise_config_from (noise_state_data N st))) (nh_state h) of
        (l, out) \<Rightarrow>
          (h\<lparr>nh_state := l\<rparr>, ok_or (bad_state ''noise handle is in use by an interpreter'') out))"

definition take_pairing_code :: "'n noise_handle \<Rightarrow> 'n noise_handle \<times> string option" where
  "take_pairing_code h = (case lock (nh_pairing_code h) of
       None \<Rightarrow> (h, None)
     | Some slot \<Rightarrow> (h\<lparr>nh_pairing_code := (nh_pairing_code h)\<lparr>guarded := None\<rparr>\<rparr>, slot))"

text \<open>
  What the persistence of a pairing relies on: a fresh configuration is empty, adding a new
  key appends it, and a state built from stored data gives that data back.
\<close>

definition noise_crate_ok :: "'n noise_crate \<Rightarrow> bool" where
  "noise_crate_ok N \<longleftrightarrow>
     noise_data_default N = \<lparr>app_static_privkey = None, device_static_pubkeys = []\<rparr>
     \<and> (\<forall>d k. k \<notin> set (device_static_pubkeys d) \<longrightarrow> add_device_static_pubkey N d k
          = d\<lparr>device_static_pubkeys := device_static_pubkeys d @ [k]\<rparr>)
     \<and> (\<forall>d. noise_state_data N (noise_state_new N (Some d)) = d)"

definition sample_noise :: "noise_config_data noise_crate" where
  "sample_noise = \<lparr>
     noise_state_new = (\<lambda>d. case d of
         None \<Rightarrow> \<lparr>app_static_privkey = None, device_static_pubkeys = []\<rparr> | Some d \<Rightarrow> d),
     noise_state_data = (\<lambda>d. d),
     noise_data_default = \<lparr>app_static_privkey = None, device_static_pubkeys = []\<rparr>,
     add_device_static_pubkey = (\<lambda>d k. if k \<in> set (device_static_pubkeys d) then d
       else d\<lparr>device_static_pubkeys := device_static_pubkeys d @ [k]\<rparr>)\<rparr>"

lemma sample_noise_ok: "noise_crate_ok sample_noise"
  by (simp add: noise_crate_ok_def sample_noise_def)

section \<open>Coldcard link encryption\<close>

record 'e coldcard_encryption =
  ce_engine :: "'e leased"

text \<open>\<open>Engine::new(&mut OsRng)\<close>: the engine made from the randomness drawn.\<close>

definition coldcard_encryption_new :: "(bytes \<Rightarrow> 'e) \<Rightarrow> bytes \<Rightarrow> 'e coldcard_encryption" where
  "coldcard_encryption_new engine_new rng = \<lparr>ce_engine = new_leased (engine_new rng)\<rparr>"

section \<open>Passphrases\<close>

datatype host_passphrase = HostPassphrase string

type_synonym passphrase_handle = "host_passphrase option mutex"

definition passphrase_new ::
    "(string \<Rightarrow> host_passphrase) \<Rightarrow> (host_passphrase \<Rightarrow> nat) \<Rightarrow> string
     \<Rightarrow> hwi_error + passphrase_handle" where
  "passphrase_new hp_new byte_len text =
     (let passphrase = hp_new text in
      and_then (require (\<not> 50 < byte_len passphrase)
        (invalid ''passphrase exceeds 50 normalized UTF-8 bytes''))
      (\<lambda>_. Inr (new_mutex (Some passphrase))))"

definition clone_passphrase :: "passphrase_handle \<Rightarrow> hwi_error + host_passphrase" where
  "clone_passphrase h =
     and_then (ok_or (internal ''passphrase lock poisoned'') (lock h))
       (ok_or (bad_state ''passphrase handle is cleared''))"

definition passphrase_validate :: "passphrase_handle \<Rightarrow> hwi_error + unit" where
  "passphrase_validate h =
     and_then (ok_or (internal ''passphrase lock poisoned'') (lock h))
       (\<lambda>p. ok_or (bad_state ''passphrase handle is cleared'') (map_option (\<lambda>_. ()) p))"

text \<open>\<open>unwrap_or_else(PoisonError::into_inner)\<close>: clearing works on a poisoned lock too.\<close>

definition passphrase_clear :: "passphrase_handle \<Rightarrow> passphrase_handle" where
  "passphrase_clear h = h\<lparr>guarded := None\<rparr>"

section \<open>Specter frames\<close>

type_synonym 'd specter_decoder = "'d option mutex"

text \<open>\<open>ACK\<close>, carriage return, line feed; and the line end after the payload.\<close>

definition frame_prefix :: bytes where
  "frame_prefix = [65, 67, 75, 13, 10]"

definition frame_suffix :: bytes where
  "frame_suffix = [13, 10]"

definition specter_decoder_new :: "'d \<Rightarrow> 'd specter_decoder" where
  "specter_decoder_new default_decoder = new_mutex (Some default_decoder)"

definition specter_push ::
    "('d \<Rightarrow> bytes \<Rightarrow> 'd \<times> (core_error + bytes option)) \<Rightarrow> bytes \<Rightarrow> 'd specter_decoder
     \<Rightarrow> 'd specter_decoder \<times> (hwi_error + bytes option)" where
  "specter_push push bs m = (case lock m of
       None \<Rightarrow> (m, Inl (internal ''Specter decoder lock poisoned''))
     | Some None \<Rightarrow> (m, Inl (bad_state ''Specter decoder is retired''))
     | Some (Some decoder) \<Rightarrow>
         (case push decoder bs of
            (decoder', Inr None) \<Rightarrow> (m\<lparr>guarded := Some decoder'\<rparr>, Inr None)
          | (decoder', Inr (Some payload)) \<Rightarrow>
              (m\<lparr>guarded := None\<rparr>, Inr (Some (frame_prefix @ payload @ frame_suffix)))
          | (decoder', Inl error) \<Rightarrow> (m\<lparr>guarded := None\<rparr>, Inl (map_error error KSpecter))))"

section \<open>The store of leased handles\<close>

text \<open>
  Handles are shared through \<open>Arc\<close>s, whose addresses are \<open>nat\<close>s here. A lease names the cell it
  is on.
\<close>

type_synonym handle = nat

record ('n, 'e) device_state =
  noises :: "handle \<Rightarrow> 'n noise_handle"
  coldcards :: "handle \<Rightarrow> 'e coldcard_encryption"

datatype lease_key = NoiseKey handle | ColdcardKey handle

definition set_noise ::
    "handle \<Rightarrow> 'n noise_handle \<Rightarrow> ('n, 'e) device_state \<Rightarrow> ('n, 'e) device_state" where
  "set_noise h v d = d\<lparr>noises := (noises d)(h := v)\<rparr>"

definition set_coldcard ::
    "handle \<Rightarrow> 'e coldcard_encryption \<Rightarrow> ('n, 'e) device_state \<Rightarrow> ('n, 'e) device_state" where
  "set_coldcard h v d = d\<lparr>coldcards := (coldcards d)(h := v)\<rparr>"

text \<open>\<open>handle.state.acquire()\<close> and \<open>release()\<close>, on the handle in the store.\<close>

fun key_held :: "lease_key \<Rightarrow> ('n, 'e) device_state \<Rightarrow> bool" where
  "key_held (NoiseKey h) d = is_leased (nh_state (noises d h))"
| "key_held (ColdcardKey h) d = is_leased (ce_engine (coldcards d h))"

fun key_acquire :: "lease_key \<Rightarrow> ('n, 'e) device_state \<Rightarrow> ('n, 'e) device_state option" where
  "key_acquire (NoiseKey h) d =
     map_option (\<lambda>l. set_noise h ((noises d h)\<lparr>nh_state := l\<rparr>) d) (acquire (nh_state (noises d h)))"
| "key_acquire (ColdcardKey h) d =
     map_option (\<lambda>l. set_coldcard h ((coldcards d h)\<lparr>ce_engine := l\<rparr>) d)
       (acquire (ce_engine (coldcards d h)))"

fun key_release :: "lease_key \<Rightarrow> ('n, 'e) device_state \<Rightarrow> ('n, 'e) device_state" where
  "key_release (NoiseKey h) d =
     set_noise h ((noises d h)\<lparr>nh_state := release (nh_state (noises d h))\<rparr>) d"
| "key_release (ColdcardKey h) d =
     set_coldcard h ((coldcards d h)\<lparr>ce_engine := release (ce_engine (coldcards d h))\<rparr>) d"

lemma noises_set [simp]:
  "noises (set_noise h v d) = (noises d)(h := v)" "coldcards (set_noise h v d) = coldcards d"
  "noises (set_coldcard h e d) = noises d" "coldcards (set_coldcard h e d) = (coldcards d)(h := e)"
  by (simp_all add: set_noise_def set_coldcard_def)

lemma key_acquire_facts:
  "key_held k d \<Longrightarrow> key_acquire k d = None"
  "\<not> key_held k d \<Longrightarrow> \<exists>t. key_acquire k d = Some t \<and> key_held k t"
  by (cases k; simp add: acquire_def)+

lemma key_acquire_other: "key_acquire k d = Some t \<Longrightarrow> j \<noteq> k \<Longrightarrow> key_held j t = key_held j d"
  by (cases k; cases j) (auto simp: acquire_def split: if_splits)

lemma key_release_facts:
  "\<not> key_held k (key_release k d)"
  "j \<noteq> k \<Longrightarrow> key_held j (key_release k d) = key_held j d"
  by (cases k; simp) (cases k; cases j; simp)

interpretation leases: lease_table key_acquire key_release key_held
  by unfold_locales (simp_all add: key_acquire_facts key_release_facts key_acquire_other)

section \<open>Properties of the noise handle\<close>

definition wf_noise_config :: "noise_config \<Rightarrow> bool" where
  "wf_noise_config c \<longleftrightarrow>
     (case nc_privkey c of None \<Rightarrow> True | Some k \<Rightarrow> length k = 32)
     \<and> list_all (\<lambda>k. length k = 32) (nc_device_pubkeys c)"

lemma add_pubkeys_ok:
  "(\<exists>d'. add_pubkeys N ks d = Inr d') \<longleftrightarrow> list_all (\<lambda>k. length k = 32) ks"
  by (induction ks arbitrary: d) auto

lemma add_pubkeys_appends:
  assumes "noise_crate_ok N"
  shows "distinct (device_static_pubkeys d @ ks) \<Longrightarrow> list_all (\<lambda>k. length k = 32) ks \<Longrightarrow>
    add_pubkeys N ks d = Inr (d\<lparr>device_static_pubkeys := device_static_pubkeys d @ ks\<rparr>)"
proof (induction ks arbitrary: d)
  case Nil
  then show ?case by simp
next
  case (Cons k ks)
  then have "add_device_static_pubkey N d k
      = d\<lparr>device_static_pubkeys := device_static_pubkeys d @ [k]\<rparr>"
    using assms by (simp add: noise_crate_ok_def)
  with Cons show ?case by simp
qed

lemma noise_data_try_from_ok:
  "(\<exists>d. noise_data_try_from N c = Inr d) \<longleftrightarrow> wf_noise_config c"
  by (cases "nc_privkey c")
    (auto simp: noise_data_try_from_def wf_noise_config_def add_pubkeys_ok Let_def)

text \<open>
  A noise handle restores exactly the well-formed configurations: 32-byte keys only. Any
  other is refused as invalid input, before any state exists.
\<close>

lemma noise_config_validated:
  "(\<exists>h. noise_handle_new N (Some c) = Inr h) \<longleftrightarrow> wf_noise_config c"
  using noise_data_try_from_ok [of N c]
  by (auto simp: noise_handle_new_def transpose_result_def result_simps)

text \<open>
  C35: persistence of a pairing. What a handle restored from a saved configuration exports,
  before any interpreter changes it, is that configuration, and exporting does not disturb the
  handle.
\<close>

theorem noise_config_roundtrip:
  assumes ok: "noise_crate_ok N" and wf: "wf_noise_config c"
    and dist: "distinct (nc_device_pubkeys c)"
  shows "\<exists>h. noise_handle_new N (Some c) = Inr h \<and> noise_export N h = (h, Inr c)"
proof -
  let ?d = "\<lparr>app_static_privkey = nc_privkey c, device_static_pubkeys = nc_device_pubkeys c\<rparr>"
  let ?h = "\<lparr>nh_state = new_leased (noise_state_new N (Some ?d)), nh_pairing_code = new_mutex None\<rparr>"
  have "add_pubkeys N (nc_device_pubkeys c) \<lparr>app_static_privkey = pk, device_static_pubkeys = []\<rparr>
      = Inr \<lparr>app_static_privkey = pk, device_static_pubkeys = nc_device_pubkeys c\<rparr>" for pk
    using wf dist by (simp add: add_pubkeys_appends [OF ok] wf_noise_config_def)
  then have "noise_data_try_from N c = Inr ?d"
    using ok wf by (cases "nc_privkey c")
      (simp_all add: noise_data_try_from_def noise_crate_ok_def wf_noise_config_def Let_def)
  then have "noise_handle_new N (Some c) = Inr ?h" by (simp add: noise_handle_new_def)
  moreover have "noise_export N ?h = (?h, Inr c)"
    using ok by (simp add: noise_export_def with_leased_def acquire_def release_def new_leased_def
        noise_config_from_def noise_crate_ok_def)
  ultimately show ?thesis by blast
qed

theorem noise_config_roundtrip_witness:
  "\<exists>h. noise_handle_new sample_noise (Some \<lparr>nc_privkey = Some (replicate 32 7),
       nc_device_pubkeys = [replicate 32 1, replicate 32 2]\<rparr>) = Inr h
     \<and> noise_export sample_noise h = (h, Inr \<lparr>nc_privkey = Some (replicate 32 7),
       nc_device_pubkeys = [replicate 32 1, replicate 32 2]\<rparr>)"
  by (rule noise_config_roundtrip [OF sample_noise_ok])
    (simp_all add: wf_noise_config_def replicate_eq_replicate)

lemma hooks_guarded:
  "\<not> poisoned m \<Longrightarrow> fold pairing_hook codes m =
     m\<lparr>guarded := (if codes = [] then guarded m else Some (last codes))\<rparr>"
proof (induction codes rule: rev_induct)
  case Nil
  then show ?case by simp
next
  case (snoc c cs)
  then show ?case by (simp add: pairing_hook_def lock_def)
qed

text \<open>
  C36: the pairing code. Whatever codes the interpreter's hook reports, the host takes the
  latest one exactly once, and can do so while an interpreter holds the state: the slot is
  outside the lease.
\<close>

theorem pairing_code_taken_once:
  assumes "\<not> poisoned (nh_pairing_code h)" and "codes \<noteq> []"
  shows "\<exists>h'. take_pairing_code (h\<lparr>nh_pairing_code := fold pairing_hook codes (nh_pairing_code h)\<rparr>)
        = (h', Some (last codes))
      \<and> take_pairing_code h' = (h', None) \<and> nh_state h' = nh_state h"
  using assms by (simp add: hooks_guarded take_pairing_code_def lock_def)

theorem pairing_code_taken_once_witness:
  "let h = \<lparr>nh_state = \<lparr>cell = (), is_leased = True\<rparr>, nh_pairing_code = new_mutex None\<rparr> in
   \<exists>h'. take_pairing_code (h\<lparr>nh_pairing_code :=
          fold pairing_hook [''AAAAA'', ''BBBBB''] (nh_pairing_code h)\<rparr>)
        = (h', Some (last [''AAAAA'', ''BBBBB'']))
      \<and> take_pairing_code h' = (h', None) \<and> nh_state h' = nh_state h"
  unfolding Let_def by (rule pairing_code_taken_once) simp_all

section \<open>Properties of the passphrase handle\<close>

text \<open>
  C30: life of a passphrase handle. A handle exists only for a passphrase of at most 50
  normalized bytes; until it is cleared every interpreter gets that passphrase; clearing is
  final and idempotent, after which both uses fail with \<open>BadState\<close>.
\<close>

theorem passphrase_lifecycle:
  assumes "passphrase_new hp_new byte_len text = Inr h"
  shows "byte_len (hp_new text) \<le> 50
    \<and> clone_passphrase h = Inr (hp_new text) \<and> passphrase_validate h = Inr ()
    \<and> clone_passphrase (passphrase_clear h) = Inl (BadState ''passphrase handle is cleared'')
    \<and> passphrase_validate (passphrase_clear h) = Inl (BadState ''passphrase handle is cleared'')
    \<and> passphrase_clear (passphrase_clear h) = passphrase_clear h"
  using assms
  by (auto simp: passphrase_new_def result_simps Let_def clone_passphrase_def
      passphrase_validate_def passphrase_clear_def lock_def new_mutex_def bad_state_def)

theorem passphrase_lifecycle_witness:
  "let h = new_mutex (Some (HostPassphrase ''cafe'')) in
    (case HostPassphrase ''cafe'' of HostPassphrase s \<Rightarrow> length s) \<le> 50
    \<and> clone_passphrase h = Inr (HostPassphrase ''cafe'') \<and> passphrase_validate h = Inr ()
    \<and> clone_passphrase (passphrase_clear h) = Inl (BadState ''passphrase handle is cleared'')
    \<and> passphrase_validate (passphrase_clear h) = Inl (BadState ''passphrase handle is cleared'')
    \<and> passphrase_clear (passphrase_clear h) = passphrase_clear h"
  unfolding Let_def
  by (rule passphrase_lifecycle) (simp add: passphrase_new_def)

section \<open>Properties of the frame decoder\<close>

definition decoder_live :: "'d specter_decoder \<Rightarrow> bool" where
  "decoder_live m \<longleftrightarrow> (\<exists>d. lock m = Some (Some d))"

definition decoder_dead_error :: "'d specter_decoder \<Rightarrow> hwi_error" where
  "decoder_dead_error m = (if poisoned m then internal ''Specter decoder lock poisoned''
     else bad_state ''Specter decoder is retired'')"

text \<open>The replies that end a decoder: a frame, or a framing error of the core.\<close>

fun decoder_ends :: "hwi_error + bytes option \<Rightarrow> bool" where
  "decoder_ends (Inr None) = False"
| "decoder_ends (Inr (Some frame)) = True"
| "decoder_ends (Inl (BadState m)) = False"
| "decoder_ends (Inl (Internal m)) = False"
| "decoder_ends (Inl _) = True"

lemma decoder_ends_error [simp]: "decoder_ends (Inl (map_error e kind))"
  by (cases e) simp_all

lemma specter_push_dead: "\<not> decoder_live m \<Longrightarrow> specter_push push bs m = (m, Inl (decoder_dead_error m))"
  by (auto simp: decoder_live_def decoder_dead_error_def specter_push_def lock_def
      split: option.splits)

lemma specter_push_live:
  assumes "decoder_live m"
  obtains d d' r where "m = \<lparr>poisoned = False, guarded = Some d\<rparr>" and "push d bs = (d', r)"
    and "specter_push push bs m = (case r of
        Inr None \<Rightarrow> (m\<lparr>guarded := Some d'\<rparr>, Inr None)
      | Inr (Some p) \<Rightarrow> (m\<lparr>guarded := None\<rparr>, Inr (Some (frame_prefix @ p @ frame_suffix)))
      | Inl e \<Rightarrow> (m\<lparr>guarded := None\<rparr>, Inl (map_error e KSpecter)))"
proof -
  from assms obtain d where d: "lock m = Some (Some d)" by (auto simp: decoder_live_def)
  then have "m = \<lparr>poisoned = False, guarded = Some d\<rparr>"
    by (cases m) (simp add: lock_def split: if_splits)
  moreover obtain d' r where "push d bs = (d', r)" by fastforce
  ultimately show ?thesis
    using that d by (simp add: specter_push_def lock_def split: sum.splits option.splits)
qed

lemma decoder_ends_retires:
  "decoder_ends (snd (specter_push push bs m)) \<longleftrightarrow>
     decoder_live m \<and> \<not> decoder_live (fst (specter_push push bs m))"
proof (cases "decoder_live m")
  case False
  then show ?thesis
    by (simp add: specter_push_dead decoder_dead_error_def bad_state_def internal_def)
next
  case True
  then obtain d d' r where m: "m = \<lparr>poisoned = False, guarded = Some d\<rparr>" "push d bs = (d', r)"
    by (rule specter_push_live [where push = push and bs = bs])
  with m True show ?thesis
    by (auto simp: specter_push_def lock_def decoder_live_def split: sum.splits option.splits)
qed

interpretation decoder: one_shot "specter_push push" decoder_live decoder_dead_error
  "\<lambda>bs r. decoder_ends r"
  for push :: "'d \<Rightarrow> bytes \<Rightarrow> 'd \<times> (core_error + bytes option)"
proof
  show "\<not> decoder_live m \<Longrightarrow> specter_push push bs m = (m, Inl (decoder_dead_error m))" for m bs
    by (rule specter_push_dead)
  show "decoder_ends (snd (specter_push push bs m)) \<Longrightarrow> \<not> decoder_live (fst (specter_push push bs m))"
    for m bs by (simp add: decoder_ends_retires)
  show "\<not> decoder_live m \<Longrightarrow> \<not> decoder_ends (Inl (decoder_dead_error m))" for m :: "'d specter_decoder"
    by (simp add: decoder_dead_error_def bad_state_def internal_def)
qed

lemma live_push_stays:
  "decoder_live m \<Longrightarrow> \<not> decoder_ends (snd (specter_push push bs m)) \<Longrightarrow>
     decoder_live (fst (specter_push push bs m)) \<and> snd (specter_push push bs m) = Inr None"
  by (erule specter_push_live [where push = push and bs = bs])
    (auto simp: decoder_live_def lock_def split: sum.splits option.splits)

lemma retired_push_error:
  "decoder_live m \<Longrightarrow> decoder_ends (snd (specter_push push bs m)) \<Longrightarrow>
     decoder_dead_error (fst (specter_push push bs m)) = BadState ''Specter decoder is retired''"
  by (erule specter_push_live [where push = push and bs = bs])
    (auto simp: decoder_dead_error_def bad_state_def split: sum.splits option.splits)

text \<open>
  C29: one decoder, one reply. Over any sequence of chunks a fresh decoder first answers "read
  more", then at most once with a frame or a framing error, and after that every push fails
  with \<open>BadState\<close>: a reply is never delivered twice and a failed decoder is never reused.
\<close>

theorem decoder_protocol:
  "\<exists>k last n. snd (run_calls (specter_push push) chunks (specter_decoder_new d0)) =
       replicate k (Inr None) @ last @ replicate n (Inl (BadState ''Specter decoder is retired''))
     \<and> (last = [] \<and> n = 0 \<or> (\<exists>r. last = [r] \<and> decoder_ends r))"
proof -
  have "\<exists>k last n. snd (run_calls (specter_push push) chunks m) =
       replicate k (Inr None) @ last @ replicate n (Inl (BadState ''Specter decoder is retired''))
     \<and> (last = [] \<and> n = 0 \<or> (\<exists>r. last = [r] \<and> decoder_ends r))" if "decoder_live m" for m
    using that
  proof (induction chunks arbitrary: m)
    case Nil
    show ?case by (intro exI [of _ 0] exI [of _ "[]"]) simp
  next
    case (Cons bs chunks)
    obtain m' r where p: "specter_push push bs m = (m', r)" by fastforce
    show ?case
    proof (cases "decoder_ends r")
      case True
      with p Cons.prems have "\<not> decoder_live m'"
        and e: "decoder_dead_error m' = BadState ''Specter decoder is retired''"
        using decoder_ends_retires [of push bs m] retired_push_error [of m push bs] by simp_all
      then have "run_calls (specter_push push) chunks m' =
          (m', replicate (length chunks) (Inl (BadState ''Specter decoder is retired'')))"
        by (simp add: decoder.dead_run)
      with p True show ?thesis
        by (intro exI [of _ 0] exI [of _ "[r]"] exI [of _ "length chunks"]) simp
    next
      case False
      with p Cons.prems have "decoder_live m'" and r: "r = Inr None"
        using live_push_stays [of m push bs] by simp_all
      from Cons.IH [OF this(1)] obtain k l n where
        "snd (run_calls (specter_push push) chunks m') = replicate k (Inr None) @ l
           @ replicate n (Inl (BadState ''Specter decoder is retired''))"
        and "l = [] \<and> n = 0 \<or> (\<exists>r. l = [r] \<and> decoder_ends r)" by blast
      with p r show ?thesis
        by (intro exI [of _ "Suc k"] exI [of _ l] exI [of _ n]) (simp add: split_beta)
    qed
  qed
  then show ?thesis by (simp add: specter_decoder_new_def decoder_live_def lock_def)
qed

text \<open>
  A delivered frame is the canonical raw framing of the payload the core decoded:
  acknowledgment line, payload, line end, seven bytes longer than the payload.
\<close>

lemma decoder_frame_canonical:
  assumes "specter_push push bs m = (m', Inr (Some frame))"
  shows "\<exists>d payload. guarded m = Some d \<and> snd (push d bs) = Inr (Some payload)
    \<and> frame = [65, 67, 75, 13, 10] @ payload @ [13, 10] \<and> length frame = length payload + 7
    \<and> \<not> decoder_live m'"
  using assms
  by (auto simp: specter_push_def lock_def decoder_live_def frame_prefix_def frame_suffix_def
      split: option.splits sum.splits prod.splits if_splits)

definition sample_push :: "nat \<Rightarrow> bytes \<Rightarrow> nat \<times> (core_error + bytes option)" where
  "sample_push n bs = (if bs = [] then (n, Inl (CSerialization ''empty''))
     else if n + length bs < 4 then (n + length bs, Inr None) else (0, Inr (Some bs)))"

end
