(* ===== verification/Psbt_Gate.thy ===== *)
theory Psbt_Gate
  imports Samples
begin

text \<open>
  The result boundary of signing, from \<open>Session::start\<close> and \<open>Interp::end\<close>: what of the request
  is remembered when signing starts, and the checks on the PSBT the device returns. The
  executable check follows the code; \<open>signing_faithful\<close> says declaratively what an accepted
  result guarantees, and the two are proved equal.
\<close>

section \<open>What is remembered of the request\<close>

definition prior_input :: "psbt_input \<Rightarrow> psbt_input" where
  "prior_input input = default_psbt_input
     \<lparr>pi_partial_sigs := pi_partial_sigs input,
      pi_tap_key_sig := pi_tap_key_sig input,
      pi_tap_script_sigs := pi_tap_script_sigs input,
      pi_final_script_sig := pi_final_script_sig input,
      pi_final_script_witness := pi_final_script_witness input,
      pi_sighash_type := pi_sighash_type input\<rparr>"

definition prior_of_command :: "crates \<Rightarrow> core_command \<Rightarrow> psbt_input list \<times> wtxid option" where
  "prior_of_command C command = (case command of
       CmdSignTx p ctx \<Rightarrow>
         (map prior_input (ps_inputs p), Some (compute_wtxid C (ps_unsigned_tx p)))
     | _ \<Rightarrow> ([], None))"

section \<open>The check of one input\<close>

text \<open>\<open>try_fold\<close> over the instructions: an unreadable script is no evidence at all.\<close>

fun script_pushes :: "(string + instruction) list \<Rightarrow> bytes \<Rightarrow> bool \<Rightarrow> bool option" where
  "script_pushes [] signature found = Some found"
| "script_pushes (Inl e # rest) signature found = None"
| "script_pushes (Inr instruction # rest) signature found =
     script_pushes rest signature
       (found \<or> (case push_bytes instruction of None \<Rightarrow> False | Some push \<Rightarrow> push = signature))"

definition final_contains :: "crates \<Rightarrow> psbt_input \<Rightarrow> bytes \<Rightarrow> bool" where
  "final_contains C returned signature =
     ((case pi_final_script_witness returned of
         None \<Rightarrow> False | Some witness \<Rightarrow> list_ex (\<lambda>item. item = signature) witness)
      \<or> (case pi_final_script_sig returned of
         None \<Rightarrow> False
       | Some script \<Rightarrow>
           (case script_pushes (script_instructions C script) signature False of
              None \<Rightarrow> False | Some found \<Rightarrow> found)))"

text \<open>\<open>returned.get(key).map_or_else(|| final_contains(..), |returned| returned == sig)\<close>\<close>

definition kept_or_final :: "crates \<Rightarrow> psbt_input \<Rightarrow> 'sig option \<Rightarrow> 'sig \<Rightarrow> bytes \<Rightarrow> bool" where
  "kept_or_final C returned found sig serialized = (case found of
       None \<Rightarrow> final_contains C returned serialized
     | Some r \<Rightarrow> r = sig)"

definition preserved :: "crates \<Rightarrow> psbt_input \<Rightarrow> psbt_input \<Rightarrow> bool" where
  "preserved C original returned =
     (list_all (\<lambda>(key, sig). kept_or_final C returned (map_of (pi_partial_sigs returned) key)
          sig (ecdsa_serialize C sig)) (pi_partial_sigs original)
      \<and> list_all (\<lambda>(key, sig). kept_or_final C returned (map_of (pi_tap_script_sigs returned) key)
          sig (taproot_serialize C sig)) (pi_tap_script_sigs original)
      \<and> (case pi_tap_key_sig original of
           None \<Rightarrow> True
         | Some sig \<Rightarrow> kept_or_final C returned (pi_tap_key_sig returned) sig
             (taproot_serialize C sig))
      \<and> (case pi_final_script_sig original of
           None \<Rightarrow> True | Some script \<Rightarrow> pi_final_script_sig returned = Some script)
      \<and> (case pi_final_script_witness original of
           None \<Rightarrow> True | Some witness \<Rightarrow> pi_final_script_witness returned = Some witness))"

definition modes_match :: "crates \<Rightarrow> psbt_input \<Rightarrow> psbt_input \<Rightarrow> bool" where
  "modes_match C original returned =
     (list_all (\<lambda>(key, sig). ecdsa_hash_ty C original = Some (es_sighash_type sig))
        (filter (\<lambda>(key, sig). map_of (pi_partial_sigs original) key = None)
          (pi_partial_sigs returned))
      \<and> list_all (\<lambda>(key, sig). taproot_hash_ty C original = Some (ts_sighash_type sig))
        (filter (\<lambda>(key, sig). map_of (pi_tap_script_sigs original) key = None)
          (pi_tap_script_sigs returned))
      \<and> (pi_tap_key_sig original \<noteq> None
         \<or> (case pi_tap_key_sig returned of
              None \<Rightarrow> True
            | Some sig \<Rightarrow> taproot_hash_ty C original = Some (ts_sighash_type sig))))"

section \<open>The check of a result\<close>

fun check_inputs :: "crates \<Rightarrow> psbt_input list \<Rightarrow> psbt_input list \<Rightarrow> hwi_error + unit" where
  "check_inputs C (original # originals) (returned # rs) =
     and_then (require (preserved C original returned)
       (Device ''device changed or removed an existing PSBT signature'')) (\<lambda>_.
     and_then (require (modes_match C original returned)
       (Device ''device signature does not match the requested sighash'')) (\<lambda>_.
     check_inputs C originals rs))"
| "check_inputs C _ _ = Inr ()"

definition check_signed_psbt ::
    "crates \<Rightarrow> psbt_input list \<Rightarrow> wtxid option \<Rightarrow> psbt \<Rightarrow> hwi_error + unit" where
  "check_signed_psbt C prior_inputs prior_unsigned_tx p =
     and_then (require (\<not> (prior_unsigned_tx \<noteq> Some (compute_wtxid C (ps_unsigned_tx p))
         \<or> length (ps_inputs p) \<noteq> length prior_inputs))
       (Device ''device changed the unsigned transaction'')) (\<lambda>_.
     check_inputs C prior_inputs (ps_inputs p))"

section \<open>What an accepted result guarantees\<close>

text \<open>A signature is the final spend's when its exact bytes are a witness item or a push of a
  readable scriptSig.\<close>

definition in_final :: "crates \<Rightarrow> psbt_input \<Rightarrow> bytes \<Rightarrow> bool" where
  "in_final C r sig \<longleftrightarrow>
     (\<exists>w. pi_final_script_witness r = Some w \<and> sig \<in> set w)
     \<or> (\<exists>script is. pi_final_script_sig r = Some script
          \<and> script_instructions C script = map Inr is \<and> PushBytes sig \<in> set is)"

definition input_faithful :: "crates \<Rightarrow> psbt_input \<Rightarrow> psbt_input \<Rightarrow> bool" where
  "input_faithful C i r \<longleftrightarrow>
     \<comment> \<open>nothing signed before is lost or replaced\<close>
     (\<forall>k s. (k, s) \<in> set (pi_partial_sigs i) \<longrightarrow> map_of (pi_partial_sigs r) k = Some s
        \<or> (map_of (pi_partial_sigs r) k = None \<and> in_final C r (ecdsa_serialize C s)))
     \<and> (\<forall>k s. (k, s) \<in> set (pi_tap_script_sigs i) \<longrightarrow> map_of (pi_tap_script_sigs r) k = Some s
        \<or> (map_of (pi_tap_script_sigs r) k = None \<and> in_final C r (taproot_serialize C s)))
     \<and> (\<forall>s. pi_tap_key_sig i = Some s \<longrightarrow> pi_tap_key_sig r = Some s
        \<or> (pi_tap_key_sig r = None \<and> in_final C r (taproot_serialize C s)))
     \<and> (\<forall>s. pi_final_script_sig i = Some s \<longrightarrow> pi_final_script_sig r = Some s)
     \<and> (\<forall>w. pi_final_script_witness i = Some w \<longrightarrow> pi_final_script_witness r = Some w)
     \<comment> \<open>nothing new is signed in another mode than the request's\<close>
     \<and> (\<forall>k s. (k, s) \<in> set (pi_partial_sigs r) \<longrightarrow> k \<notin> fst ` set (pi_partial_sigs i)
        \<longrightarrow> ecdsa_hash_ty C i = Some (es_sighash_type s))
     \<and> (\<forall>k s. (k, s) \<in> set (pi_tap_script_sigs r) \<longrightarrow> k \<notin> fst ` set (pi_tap_script_sigs i)
        \<longrightarrow> taproot_hash_ty C i = Some (ts_sighash_type s))
     \<and> (\<forall>s. pi_tap_key_sig r = Some s \<longrightarrow> pi_tap_key_sig i = None
        \<longrightarrow> taproot_hash_ty C i = Some (ts_sighash_type s))"

text \<open>
  The code compares identifiers, not transactions. Two transactions that are not the same but
  have the same identifier are a collision of the double SHA-256 behind \<open>compute_wtxid\<close>.
\<close>

definition wtxid_collision :: "crates \<Rightarrow> transaction \<Rightarrow> transaction \<Rightarrow> bool" where
  "wtxid_collision C t t' \<longleftrightarrow> t \<noteq> t' \<and> compute_wtxid C t = compute_wtxid C t'"

text \<open>
  The same transaction, or a collision of the two; and every input faithful. Signature fields
  are what this speaks of: a stack that is only in a final field is not decoded.
\<close>

definition signing_faithful :: "crates \<Rightarrow> psbt \<Rightarrow> psbt \<Rightarrow> bool" where
  "signing_faithful C request p \<longleftrightarrow>
     (ps_unsigned_tx p = ps_unsigned_tx request
      \<or> wtxid_collision C (ps_unsigned_tx request) (ps_unsigned_tx p))
     \<and> list_all2 (input_faithful C) (ps_inputs request) (ps_inputs p)"

text \<open>The sighash an input asks for is read from its sighash field alone.\<close>

definition sighash_ok :: "crates \<Rightarrow> bool" where
  "sighash_ok C \<longleftrightarrow> (\<forall>i j. pi_sighash_type i = pi_sighash_type j \<longrightarrow>
     ecdsa_hash_ty C i = ecdsa_hash_ty C j \<and> taproot_hash_ty C i = taproot_hash_ty C j)"

lemma same_wtxid_iff:
  "compute_wtxid C t = compute_wtxid C t' \<longleftrightarrow> t' = t \<or> wtxid_collision C t t'"
  by (auto simp: wtxid_collision_def)

lemma sample_no_collision: "\<not> wtxid_collision sample_crates sample_tx t"
  by (simp add: wtxid_collision_def sample_crates_def sample_wtxid_def)

lemma sample_sighash_ok: "sighash_ok sample_crates"
  by (simp add: sighash_ok_def sample_crates_def)

section \<open>The check decides the specification\<close>

lemma script_pushes_iff:
  "script_pushes xs sig found = Some True \<longleftrightarrow>
     (\<exists>is. xs = map Inr is \<and> (found \<or> PushBytes sig \<in> set is))"
proof (induction xs sig found rule: script_pushes.induct)
  case (3 i rest sig found)
  have "(case push_bytes i of None \<Rightarrow> False | Some push \<Rightarrow> push = sig) \<longleftrightarrow> i = PushBytes sig"
    by (cases i) auto
  with 3 show ?case by (auto simp: Cons_eq_map_conv)
qed auto

lemma final_contains_iff: "final_contains C r sig \<longleftrightarrow> in_final C r sig"
proof -
  have "(case x of None \<Rightarrow> False | Some found \<Rightarrow> found) \<longleftrightarrow> x = Some True" for x
    by (cases x) auto
  then show ?thesis
    by (auto simp: final_contains_def in_final_def script_pushes_iff list_ex_iff
        split: option.splits)
qed

lemma kept_or_final_iff:
  "kept_or_final C r found sig ser \<longleftrightarrow> found = Some sig \<or> (found = None \<and> in_final C r ser)"
  by (cases found) (auto simp: kept_or_final_def final_contains_iff)

lemma option_all_iff: "(case x of None \<Rightarrow> True | Some y \<Rightarrow> P y) \<longleftrightarrow> (\<forall>y. x = Some y \<longrightarrow> P y)"
  by (cases x) auto

lemma list_all_pairs: "list_all (\<lambda>(k, s). P k s) xs \<longleftrightarrow> (\<forall>k s. (k, s) \<in> set xs \<longrightarrow> P k s)"
  by (auto simp: list_all_iff)

lemma list_all_filtered_pairs:
  "list_all (\<lambda>(k, s). P k s) (filter (\<lambda>(k, s). Q k) xs) \<longleftrightarrow> (\<forall>k s. (k, s) \<in> set xs \<longrightarrow> Q k \<longrightarrow> P k s)"
  by (auto simp: list_all_iff)

lemma check_input_iff: "preserved C i r \<and> modes_match C i r \<longleftrightarrow> input_faithful C i r"
proof -
  have "(pi_tap_key_sig i \<noteq> None \<or> (\<forall>s. pi_tap_key_sig r = Some s \<longrightarrow> P s)) \<longleftrightarrow>
      (\<forall>s. pi_tap_key_sig r = Some s \<longrightarrow> pi_tap_key_sig i = None \<longrightarrow> P s)" for P
    by auto
  then show ?thesis
    unfolding preserved_def modes_match_def input_faithful_def list_all_filtered_pairs
    unfolding kept_or_final_iff option_all_iff list_all_pairs map_of_eq_None_iff
    by (simp only: conj_assoc)
qed

lemma check_inputs_iff:
  "length is = length rs \<Longrightarrow>
     check_inputs C is rs = Inr () \<longleftrightarrow> list_all2 (input_faithful C) is rs"
  by (induction "is" rs rule: list_induct2) (simp_all add: result_simps check_input_iff [symmetric])

lemma check_signed_psbt_iff:
  "check_signed_psbt C is tx p = Inr () \<longleftrightarrow>
     tx = Some (compute_wtxid C (ps_unsigned_tx p)) \<and> list_all2 (input_faithful C) is (ps_inputs p)"
  using check_inputs_iff [of "is" "ps_inputs p" C]
  by (auto simp: check_signed_psbt_def result_simps dest: list_all2_lengthD)

lemma prior_input_sel [simp]:
  "pi_partial_sigs (prior_input i) = pi_partial_sigs i"
  "pi_tap_key_sig (prior_input i) = pi_tap_key_sig i"
  "pi_tap_script_sigs (prior_input i) = pi_tap_script_sigs i"
  "pi_final_script_sig (prior_input i) = pi_final_script_sig i"
  "pi_final_script_witness (prior_input i) = pi_final_script_witness i"
  "pi_sighash_type (prior_input i) = pi_sighash_type i"
  by (simp_all add: prior_input_def default_psbt_input_def)

lemma input_faithful_prior:
  assumes "sighash_ok C"
  shows "input_faithful C (prior_input i) r \<longleftrightarrow> input_faithful C i r"
proof -
  have hash: "ecdsa_hash_ty C (prior_input i) = ecdsa_hash_ty C i"
    "taproot_hash_ty C (prior_input i) = taproot_hash_ty C i"
    using assms prior_input_sel(6) [of i] unfolding sighash_ok_def by blast+
  show ?thesis unfolding input_faithful_def prior_input_sel hash ..
qed

lemma check_prior_iff:
  assumes "sighash_ok C"
  shows "check_signed_psbt C (fst (prior_of_command C (CmdSignTx q ctx)))
      (snd (prior_of_command C (CmdSignTx q ctx))) p = Inr () \<longleftrightarrow> signing_faithful C q p"
proof -
  have "list_all2 (input_faithful C) (map prior_input is) rs \<longleftrightarrow> list_all2 (input_faithful C) is rs"
    for "is" rs by (simp add: list_all2_map1 input_faithful_prior [OF assms])
  then show ?thesis
    by (simp add: check_signed_psbt_iff prior_of_command_def signing_faithful_def same_wtxid_iff)
qed

text \<open>
  C3: the result boundary decides its specification. With what \<open>start\<close> remembers of a request,
  the check accepts a returned PSBT exactly when it has the same unsigned transaction (or one that
  collides with the request's under \<open>compute_wtxid\<close>) and the same inputs in order, every earlier signature and final field is unchanged (or its exact
  bytes are in the final witness or scriptSig), and every new signature in a signature field uses
  the sighash the request asked for, whatever the returned metadata says.
\<close>

theorem signing_check_iff:
  assumes "sighash_ok C" and "prior_of_command C (CmdSignTx request ctx) = (priors, tx)"
  shows "check_signed_psbt C priors tx p = Inr () \<longleftrightarrow> signing_faithful C request p"
  using check_prior_iff [OF assms(1), of request ctx p] assms(2) by simp

theorem signing_check_iff_witness:
  "check_signed_psbt sample_crates [prior_input sample_psbt_input] (Some [2]) sample_psbt = Inr ()
     \<longleftrightarrow> signing_faithful sample_crates sample_psbt sample_psbt"
  by (rule signing_check_iff [OF sample_sighash_ok, where ctx = None])
    (simp add: prior_of_command_def sample_psbt_def sample_crates_def sample_wtxid_def)

section \<open>Honest devices are accepted\<close>













end
