(* ===== verification/Wire.thy ===== *)
theory Wire
  imports Samples
begin

text \<open>
  The plain values that cross the FFI (\<open>types.rs\<close>): recipients, host requests and transmits on
  the way out, commands on the way in, responses and wallet registrations on the way back,
  with their conversions from the core's types, the PSBT and signature codecs, and the
  hand-written \<open>Debug\<close> implementations that redact secrets.
\<close>

section \<open>Transmits\<close>

datatype pin_matrix_request_kind = PinCurrent | PinNewFirst | PinNewSecond | PinUnknown "32 word"

datatype host_request =
    PinMatrix pin_matrix_request_kind
  | RecoveryCharacter u32 u32

datatype recipient = ToDevice | ToPinServer string | ToHost host_request

record transmit =
  payload :: bytes
  encrypted :: bool
  recipient :: recipient

fun pin_matrix_kind_from :: "core_pin_matrix_kind \<Rightarrow> pin_matrix_request_kind" where
  "pin_matrix_kind_from CorePinCurrent = PinCurrent"
| "pin_matrix_kind_from CorePinNewFirst = PinNewFirst"
| "pin_matrix_kind_from CorePinNewSecond = PinNewSecond"
| "pin_matrix_kind_from (CorePinUnknown v) = PinUnknown v"

fun host_request_from :: "core_host_request \<Rightarrow> host_request" where
  "host_request_from (CorePinMatrix kind) = PinMatrix (pin_matrix_kind_from kind)"
| "host_request_from (CoreRecoveryCharacter w c) = RecoveryCharacter w c"

fun recipient_from :: "core_recipient \<Rightarrow> recipient" where
  "recipient_from CoreToDevice = ToDevice"
| "recipient_from (CoreToPinServer url) = ToPinServer url"
| "recipient_from (CoreToHost request) = ToHost (host_request_from request)"

definition transmit_from :: "core_transmit \<Rightarrow> transmit" where
  "transmit_from t = \<lparr>payload = ct_payload t, encrypted = ct_encrypted t,
     recipient = recipient_from (ct_recipient t)\<rparr>"

lemma pin_matrix_kind_from_inj: "pin_matrix_kind_from a = pin_matrix_kind_from b \<longleftrightarrow> a = b"
  by (cases a; cases b) simp_all

lemma host_request_from_inj: "host_request_from a = host_request_from b \<longleftrightarrow> a = b"
  by (cases a; cases b) (simp_all add: pin_matrix_kind_from_inj)

lemma recipient_from_inj: "recipient_from a = recipient_from b \<longleftrightarrow> a = b"
  by (cases a; cases b) (simp_all add: host_request_from_inj)

section \<open>Commands\<close>

datatype multisig_address_format = MsLegacy | MsShWit | MsWit

fun multisig_format_to_core :: "multisig_address_format \<Rightarrow> core_multisig_type" where
  "multisig_format_to_core MsLegacy = CoreMsLegacy"
| "multisig_format_to_core MsShWit = CoreMsShWit"
| "multisig_format_to_core MsWit = CoreMsWit"

record wallet_policy =
  wp_name :: string
  wp_descriptor :: string
  wp_ledger_hmac :: "bytes option"

datatype hwi_command =
    Unlock network
  | GetVersion
  | PromptPin
  | SendPin string
  | GetMasterFingerprint
  | GetXpub string bool
  | DisplayAddress string bool "address_format option"
  | RegisterWallet string string
  | DisplayDescriptorAddress u32 bool bool wallet_policy
  | DisplayMultisigAddress u8 bool multisig_address_format "string list"
  | SignMessage bytes string
  | SignPsbt string "wallet_policy option"

fun hwi_command_debug :: "hwi_command \<Rightarrow> string" where
  "hwi_command_debug (Unlock network) = ''Unlock''"
| "hwi_command_debug GetVersion = ''GetVersion''"
| "hwi_command_debug PromptPin = ''PromptPin''"
| "hwi_command_debug (SendPin positions) = ''SendPin(<redacted>)''"
| "hwi_command_debug GetMasterFingerprint = ''GetMasterFingerprint''"
| "hwi_command_debug (GetXpub path display) = ''GetXpub''"
| "hwi_command_debug (DisplayAddress path display format) = ''DisplayAddress''"
| "hwi_command_debug (RegisterWallet name descriptor) = ''RegisterWallet''"
| "hwi_command_debug (DisplayDescriptorAddress index change display policy) =
     ''DisplayDescriptorAddress''"
| "hwi_command_debug (DisplayMultisigAddress threshold sorted_keys format keys) =
     ''DisplayMultisigAddress''"
| "hwi_command_debug (SignMessage message path) = ''SignMessage''"
| "hwi_command_debug (SignPsbt psbt policy) = ''SignPsbt''"

text \<open>
  What a \<open>Debug\<close> implementation hands to the standard formatter: a bare name, or a struct name
  with named fields, each a string or an optional string. The formatter adds punctuation and
  escapes only.
\<close>

datatype debug_value = DebugStr string | DebugOptStr "string option"
datatype debug_out = DebugName string | DebugStruct string "(string \<times> debug_value) list"

definition wallet_policy_debug :: "wallet_policy \<Rightarrow> debug_out" where
  "wallet_policy_debug p = DebugStruct ''WalletPolicy''
     [(''name'', DebugStr (wp_name p)),
      (''descriptor'', DebugStr (wp_descriptor p)),
      (''ledger_hmac'', DebugOptStr (map_option (\<lambda>_. ''<redacted>'') (wp_ledger_hmac p)))]"

section \<open>Responses\<close>

datatype wallet_registration = RegComplete "bytes option" | RegPendingUserConfirmation

fun wallet_registration_debug :: "wallet_registration \<Rightarrow> debug_out" where
  "wallet_registration_debug (RegComplete hmac) = DebugStruct ''Complete''
     [(''hmac'', DebugOptStr (map_option (\<lambda>_. ''<redacted>'') hmac))]"
| "wallet_registration_debug RegPendingUserConfirmation = DebugName ''PendingUserConfirmation''"

fun wallet_registration_from :: "core_registration \<Rightarrow> wallet_registration" where
  "wallet_registration_from (CoreRegComplete hmac) = RegComplete hmac"
| "wallet_registration_from CoreRegPending = RegPendingUserConfirmation"

record hwi_info =
  info_version :: string
  info_firmware :: "string option"
  info_initialized :: "bool option"
  info_networks :: "network list"
  info_label :: "string option"
  info_on_device_passphrase_entry :: "bool option"
  info_needs_pin_sent :: "bool option"
  info_needs_passphrase_sent :: "bool option"

datatype hwi_response =
    HwiTaskDone
  | HwiDeviceAction bool
  | HwiInfo hwi_info
  | HwiFingerprint string
  | HwiXpub string
  | HwiAddress string
  | HwiMessageSignature string
  | HwiSignedPsbt string
  | HwiWalletRegistration wallet_registration
  | HwiOther

definition decode_psbt :: "crates \<Rightarrow> string \<Rightarrow> hwi_error + psbt" where
  "decode_psbt C psbt_base64 =
     and_then (ok_or (invalid ''PSBT is not valid base64'') (b64_decode C (str_trim psbt_base64)))
       (\<lambda>raw. ok_or (invalid ''invalid PSBT'') (psbt_deserialize C raw))"

definition encode_psbt :: "crates \<Rightarrow> psbt \<Rightarrow> string" where
  "encode_psbt C p = b64_encode C (psbt_serialize C p)"

definition encode_signature :: "crates \<Rightarrow> u8 \<Rightarrow> bytes \<Rightarrow> string" where
  "encode_signature C header sig = b64_encode C (header # serialize_compact C sig)"

definition info_from :: "core_info \<Rightarrow> hwi_info" where
  "info_from i = \<lparr>info_version = ci_version i, info_firmware = ci_firmware i,
     info_initialized = ci_initialized i,
     info_networks = map network_from_core (ci_networks i), info_label = ci_label i,
     info_on_device_passphrase_entry = ci_on_device_passphrase_entry i,
     info_needs_pin_sent = ci_needs_pin_sent i,
     info_needs_passphrase_sent = ci_needs_passphrase_sent i\<rparr>"

fun hwi_response_from :: "crates \<Rightarrow> core_response \<Rightarrow> hwi_response" where
  "hwi_response_from C RespTaskDone = HwiTaskDone"
| "hwi_response_from C (RespDeviceAction success) = HwiDeviceAction success"
| "hwi_response_from C (RespInfo info) = HwiInfo (info_from info)"
| "hwi_response_from C (RespMasterFingerprint f) = HwiFingerprint (fingerprint_to_string C f)"
| "hwi_response_from C (RespXpub x) = HwiXpub (xpub_to_string C x)"
| "hwi_response_from C (RespAddress address) = HwiAddress address"
| "hwi_response_from C (RespSignature header sig) =
     HwiMessageSignature (encode_signature C header sig)"
| "hwi_response_from C (RespSignedPsbt p) = HwiSignedPsbt (encode_psbt C p)"
| "hwi_response_from C (RespWalletRegistration r) =
     HwiWalletRegistration (wallet_registration_from r)"
| "hwi_response_from C _ = HwiOther"

section \<open>Properties of the wire values\<close>

text \<open>The bytes of a signature the host can recover from the standard Base64 form.\<close>

lemma encode_signature_decodes:
  assumes "base64_ok C"
  shows "b64_decode C (encode_signature C h sig) = Some (h # serialize_compact C sig)"
  using assms by (simp add: base64_ok_def encode_signature_def)

lemma decode_psbt_error: "decode_psbt C s = Inl e \<Longrightarrow> is_invalid_input e"
  by (auto simp: decode_psbt_def result_simps)

lemma psbt_padded_decode:
  assumes b64: "base64_ok C" and codec: "psbt_deserialize C (psbt_serialize C p) = Some p"
    and pad: "ascii_space a" "ascii_space b"
  shows "decode_psbt C (a @ encode_psbt C p @ b) = Inr p"
proof -
  have "str_trim (a @ encode_psbt C p @ b) = encode_psbt C p"
    using b64 pad by (simp add: base64_ok_def encode_psbt_def str_trim_padded)
  with b64 codec show ?thesis by (simp add: decode_psbt_def encode_psbt_def base64_ok_def)
qed

lemma psbt_encode_decode:
  assumes "base64_ok C" and "psbt_deserialize C (psbt_serialize C p) = Some p"
  shows "decode_psbt C (encode_psbt C p) = Inr p"
  using psbt_padded_decode [OF assms, of "[]" "[]"] by (simp add: ascii_space_def)

text \<open>
  C34: a PSBT that the bindings encode is read back unchanged, also with surrounding white space
  that a host may add to the text.
\<close>

theorem psbt_roundtrip:
  assumes b64: "base64_ok C" and codec: "psbt_deserialize C (psbt_serialize C p) = Some p"
    and pad: "ascii_space a" "ascii_space b"
  shows "decode_psbt C (a @ encode_psbt C p @ b) = Inr p"
  using assms by (rule psbt_padded_decode)

theorem psbt_roundtrip_witness:
  "decode_psbt sample_crates ('' '' @ encode_psbt sample_crates sample_psbt @ [CHR 0x0A])
     = Inr sample_psbt"
  by (rule psbt_roundtrip [OF sample_base64_ok])
    (simp_all add: sample_crates_def ascii_space_def byte_in_def)

text \<open>
  The hand-written \<open>Debug\<close> output carries no secret: of a wallet policy and of a completed
  registration it shows only whether an HMAC is present, and of \<open>SendPin\<close> it shows nothing of
  the positions.
\<close>

lemma debug_redacts:
  "wallet_policy_debug (p\<lparr>wp_ledger_hmac := Some h\<rparr>) = wallet_policy_debug (p\<lparr>wp_ledger_hmac := Some h'\<rparr>)
   \<and> wallet_registration_debug (RegComplete (Some h)) = wallet_registration_debug (RegComplete (Some h'))
   \<and> hwi_command_debug (SendPin pin) = hwi_command_debug (SendPin pin')"
  by (simp add: wallet_policy_debug_def)

text \<open>
  Conversion of a transmit loses nothing the host needs: distinct core transmits stay
  distinct, in particular a payload for the PIN server or a host prompt is never delivered to
  the device.
\<close>

lemma transmit_from_faithful:
  "(transmit_from a = transmit_from b \<longleftrightarrow> a = b)
   \<and> (recipient (transmit_from a) = ToDevice \<longleftrightarrow> ct_recipient a = CoreToDevice)"
proof
  show "transmit_from a = transmit_from b \<longleftrightarrow> a = b"
    by (auto simp: transmit_from_def recipient_from_inj)
  show "recipient (transmit_from a) = ToDevice \<longleftrightarrow> ct_recipient a = CoreToDevice"
    by (cases "ct_recipient a") (simp_all add: transmit_from_def)
qed

end
