(* ===== verification/Policy.thy ===== *)
theory Policy
  imports Wire
begin

text \<open>
  The input validation of \<open>types.rs\<close>: policy names per device family, public wallet
  descriptors, concrete multisig keys, derivation paths, the device context of a wallet policy
  and the rules for Ledger signing policies. Each check is translated as written; the
  declarative specifications beside them say which inputs are meant to pass.
\<close>

section \<open>Policy names\<close>

text \<open>\<open>(b' '..=b'~').contains(&byte)\<close>\<close>

definition printable_byte :: "char \<Rightarrow> bool" where
  "printable_byte c = byte_in 32 126 c"

definition printable_name :: "nat \<Rightarrow> string \<Rightarrow> bool" where
  "printable_name max_len name =
     (1 \<le> length name \<and> length name \<le> max_len \<and> list_all printable_byte name
      \<and> \<not> starts_with_char CHR '' '' name \<and> \<not> ends_with_char CHR '' '' name)"

fun policy_name_valid :: "device_kind \<Rightarrow> bool \<Rightarrow> string \<Rightarrow> bool" where
  "policy_name_valid KLedger registration name =
     ((\<not> registration \<and> name = []) \<or> printable_name 64 name)"
| "policy_name_valid KJade registration name =
     (name \<noteq> [] \<and> length name \<le> 16
      \<and> list_all (\<lambda>b. is_ascii_alphanumeric b \<or> b = CHR ''_'') name)"
| "policy_name_valid KColdcard registration name =
     (2 \<le> length name \<and> length name \<le> 20
      \<and> list_all (\<lambda>b. is_ascii_graphic b \<or> b = CHR '' '') name)"
| "policy_name_valid KBitBox registration name = printable_name 30 name"
| "policy_name_valid KSpecter registration name =
     (name \<noteq> [] \<and> \<not> List.member name CHR ''&''
      \<and> \<not> list_ex char_is_control (str_chars name))"
| "policy_name_valid KTrezor registration name = (\<not> list_ex char_is_control (str_chars name))"
| "policy_name_valid KKeepKey registration name = (\<not> list_ex char_is_control (str_chars name))"

definition validate_policy_name :: "string \<Rightarrow> device_kind \<Rightarrow> bool \<Rightarrow> hwi_error + unit" where
  "validate_policy_name name kind registration =
     require (policy_name_valid kind registration name)
       (invalid ''invalid wallet policy name for this device'')"

section \<open>Keys and descriptors\<close>

definition parse_path :: "crates \<Rightarrow> string \<Rightarrow> hwi_error + derivation_path" where
  "parse_path C path =
     ok_or (invalid ''invalid derivation path'') (path_from_str C (str_trim path))"

text \<open>The keys \<open>parse_public_policy\<close> rejects.\<close>

fun policy_key_rejected :: "descriptor_public_key \<Rightarrow> bool" where
  "policy_key_rejected (XPub key) =
     (xk_origin key = None \<or> xk_wildcard key = HardenedWildcard
      \<or> list_ex is_hardened (xk_derivation_path key))"
| "policy_key_rejected (MultiXPub key) =
     (mx_origin key = None \<or> mx_wildcard key = HardenedWildcard
      \<or> list_ex (list_ex is_hardened) (mx_derivation_paths key))"
| "policy_key_rejected (Single key) = True"

definition parse_public_policy :: "crates \<Rightarrow> string \<Rightarrow> hwi_error + core_wallet_policy" where
  "parse_public_policy C text =
     and_then (ok_or (invalid ''invalid public wallet descriptor'') (desc_from_str C text))
       (\<lambda>descriptor. and_then
          (require (\<not> (desc_is_bare C descriptor \<or> desc_iter_pk C descriptor = []
               \<or> list_ex policy_key_rejected (desc_iter_pk C descriptor)))
            (invalid ''wallet descriptor requires origin-bearing public account xpubs with unhardened suffixes''))
          (\<lambda>_. ok_or (invalid ''unsupported public wallet descriptor'')
            (policy_from_descriptor C descriptor)))"

fun concrete_key_valid :: "device_kind \<Rightarrow> descriptor_public_key \<Rightarrow> bool" where
  "concrete_key_valid kind (Single single) =
     (kind \<noteq> KJade \<and> sk_origin single \<noteq> None
      \<and> (case sk_key single of FullKey compressed key \<Rightarrow> compressed | XOnlyKey key \<Rightarrow> False))"
| "concrete_key_valid kind (XPub xpub) =
     ((kind = KJade \<or> kind = KTrezor) \<and> xk_origin xpub \<noteq> None
      \<and> xk_wildcard xpub = NoWildcard
      \<and> list_all (\<lambda>child. \<not> is_hardened child) (xk_derivation_path xpub))"
| "concrete_key_valid kind (MultiXPub m) = False"

definition concrete_key_message :: "device_kind \<Rightarrow> string" where
  "concrete_key_message kind = (case kind of
       KJade \<Rightarrow> ''Jade multisig requires origin-bearing xpubs with concrete unhardened suffixes''
     | KTrezor \<Rightarrow> ''Trezor multisig requires origin-bearing compressed public keys or concrete unhardened xpubs''
     | _ \<Rightarrow> ''multisig requires origin-bearing concrete compressed public keys'')"

definition parse_concrete_key ::
    "crates \<Rightarrow> device_kind \<Rightarrow> string \<Rightarrow> hwi_error + descriptor_public_key" where
  "parse_concrete_key C kind text =
     and_then (ok_or (invalid ''invalid concrete multisig key'') (key_from_str C text))
       (\<lambda>key. if concrete_key_valid kind key then Inr key
              else Inl (invalid (concrete_key_message kind)))"

section \<open>Wallet policies in context\<close>

text \<open>\<open>bytes.try_into()\<close> into \<open>[u8; 32]\<close>, for the families that take an HMAC.\<close>

definition context_hmac :: "bytes option \<Rightarrow> device_kind \<Rightarrow> hwi_error + bytes option" where
  "context_hmac hmac kind = (case hmac of
       Some bs \<Rightarrow>
         if kind = KLedger then
           map_ok Some (if length bs = 32 then Inr bs
             else Inl (invalid ''Ledger HMAC must contain exactly 32 bytes''))
         else Inl (invalid ''wallet HMAC is only valid for Ledger'')
     | None \<Rightarrow> Inr None)"

definition policy_context ::
    "crates \<Rightarrow> wallet_policy \<Rightarrow> device_kind \<Rightarrow> hwi_error + device_context option" where
  "policy_context C p kind =
     and_then (validate_policy_name (wp_name p) kind False) (\<lambda>_.
     and_then (context_hmac (wp_ledger_hmac p) kind) (\<lambda>hmac.
     and_then (parse_public_policy C (wp_descriptor p)) (\<lambda>policy.
       Inr (case kind of
           KLedger \<Rightarrow> Some (LedgerContext
             \<lparr>lw_name = wp_name p, lw_version = V2, lw_policy = policy\<rparr> hmac)
         | KBitBox \<Rightarrow> Some (BitBoxContext policy)
         | KSpecter \<Rightarrow> Some (SpecterContext policy)
         | _ \<Rightarrow> None))))"

section \<open>Ledger signing policies\<close>

text \<open>\<open>match template.as_str()\<close>\<close>

definition template_purpose :: "string \<Rightarrow> u32 option" where
  "template_purpose template =
     (if template = ''pkh(@0/**)'' then Some 44
      else if template = ''sh(wpkh(@0/**))'' then Some 49
      else if template = ''wpkh(@0/**)'' then Some 84
      else if template = ''tr(@0/**)'' then Some 86 else None)"

fun valid_default_origin :: "u32 \<Rightarrow> u32 \<Rightarrow> xpub \<Rightarrow> derivation_path \<Rightarrow> bool" where
  "valid_default_origin purpose coin xkey [Hardened p, Hardened c, Hardened account] =
     (p = purpose \<and> c = coin \<and> account \<le> 100 \<and> xpub_depth xkey = 3
      \<and> xpub_child_number xkey = Hardened account)"
| "valid_default_origin purpose coin xkey _ = False"

definition valid_default_branches :: "derivation_path list \<Rightarrow> wildcard \<Rightarrow> bool" where
  "valid_default_branches paths wild =
     (length paths = 2 \<and> paths ! 0 = [Normal 0] \<and> paths ! 1 = [Normal 1]
      \<and> wild = UnhardenedWildcard)"

text \<open>\<open>let [DescriptorPublicKey::MultiXPub(key)] = keys.as_slice() else\<close>\<close>

fun single_multi_xpub :: "descriptor_public_key list \<Rightarrow> desc_multi_xkey option" where
  "single_multi_xpub [MultiXPub key] = Some key"
| "single_multi_xpub _ = None"

definition validate_default_policy ::
    "string \<times> descriptor_public_key list \<Rightarrow> hwi_error + unit" where
  "validate_default_policy parts =
     and_then (ok_or (invalid ''Ledger policy requires registration'')
       (template_purpose (fst parts))) (\<lambda>purpose.
     and_then (ok_or (invalid ''Ledger default policy requires one account xpub'')
       (single_multi_xpub (snd parts))) (\<lambda>key.
     and_then (ok_or (invalid ''Ledger default policy requires an account origin'')
       (mx_origin key)) (\<lambda>origin.
     let coin = (if xpub_network (mx_xkey key) = Main then 0 else 1) in
     require (valid_default_origin purpose coin (mx_xkey key) (snd origin)
         \<and> valid_default_branches (mx_derivation_paths key) (mx_wildcard key))
       (invalid ''Ledger default policy requires a standard hardened account and receive/change branches''))))"

definition validate_ledger_signing_policy ::
    "crates \<Rightarrow> ledger_wallet_policy \<Rightarrow> bytes option \<Rightarrow> hwi_error + unit" where
  "validate_ledger_signing_policy C wallet hmac = (case hmac of
       Some h \<Rightarrow> require (\<not> (lw_name wallet = [] \<or> h = replicate 32 0))
         (invalid ''registered Ledger signing requires a name and a nonzero HMAC'')
     | None \<Rightarrow>
         and_then (require (lw_name wallet = [])
           (invalid ''Ledger signing without a HMAC requires the unnamed default policy''))
          (\<lambda>_. and_then (ok_or (invalid ''invalid Ledger default policy'')
              (extract_parts C (lw_policy wallet))) validate_default_policy))"

section \<open>Every rejection is an invalid input\<close>

lemma validate_policy_name_error:
  "validate_policy_name name kind registration = Inl e \<Longrightarrow> is_invalid_input e"
  by (auto simp: validate_policy_name_def result_simps)

lemma parse_path_error: "parse_path C path = Inl e \<Longrightarrow> is_invalid_input e"
  by (auto simp: parse_path_def result_simps)

lemma parse_public_policy_error: "parse_public_policy C text = Inl e \<Longrightarrow> is_invalid_input e"
  by (auto simp: parse_public_policy_def result_simps)

lemma parse_concrete_key_error: "parse_concrete_key C kind text = Inl e \<Longrightarrow> is_invalid_input e"
  by (auto simp: parse_concrete_key_def result_simps split: if_splits)

lemma context_hmac_error: "context_hmac hmac kind = Inl e \<Longrightarrow> is_invalid_input e"
  by (auto simp: context_hmac_def result_simps split: option.splits if_splits)

lemma policy_context_error: "policy_context C p kind = Inl e \<Longrightarrow> is_invalid_input e"
  by (auto simp: policy_context_def result_simps
      dest: validate_policy_name_error context_hmac_error parse_public_policy_error)

lemma validate_default_policy_error: "validate_default_policy parts = Inl e \<Longrightarrow> is_invalid_input e"
  by (auto simp: validate_default_policy_def result_simps Let_def)

lemma validate_ledger_signing_policy_error:
  "validate_ledger_signing_policy C wallet hmac = Inl e \<Longrightarrow> is_invalid_input e"
  by (auto simp: validate_ledger_signing_policy_def result_simps
      dest: validate_default_policy_error split: option.splits)

lemmas validation_errors =
  validate_policy_name_error parse_path_error parse_public_policy_error parse_concrete_key_error
  policy_context_error validate_ledger_signing_policy_error decode_psbt_error

section \<open>What the validators accept\<close>

subsection \<open>Names\<close>

lemma byte_in_ascii_plain:
  "list_all (byte_in 32 126) s \<Longrightarrow> \<not> list_ex char_is_control (str_chars s)"
  by (subst str_chars_ascii)
    (force simp: list_all_iff list_ex_iff byte_in_def char_is_control_def)+

lemma printable_name_bytes: "printable_name n name \<Longrightarrow> list_all (byte_in 32 126) name"
  by (auto simp: printable_name_def printable_byte_def list_all_iff)

lemma ascii_name_bytes:
  "kind \<in> {KLedger, KJade, KColdcard, KBitBox} \<Longrightarrow> policy_name_valid kind registration name \<Longrightarrow>
     list_all (byte_in 32 126) name"
  by (elim insertE emptyE)
    (force dest: printable_name_bytes simp: list_all_iff is_ascii_alphanumeric_def
      is_ascii_graphic_def byte_in_def)+

lemma policy_name_no_control:
  assumes "policy_name_valid kind registration name"
  shows "\<not> list_ex char_is_control (str_chars name)"
proof (cases "kind \<in> {KLedger, KJade, KColdcard, KBitBox}")
  case True
  from ascii_name_bytes [OF this assms] show ?thesis by (rule byte_in_ascii_plain)
next
  case False
  with assms show ?thesis by (cases kind) simp_all
qed

fun name_limit :: "device_kind \<Rightarrow> nat option" where
  "name_limit KLedger = Some 64"
| "name_limit KJade = Some 16"
| "name_limit KColdcard = Some 20"
| "name_limit KBitBox = Some 30"
| "name_limit _ = None"

text \<open>
  C38: no accepted policy name can carry a control character to a device, and the four families
  with a length limit accept printable ASCII within it only.
\<close>

theorem policy_names_safe:
  assumes "validate_policy_name name kind registration = Inr ()"
  shows "\<not> list_ex char_is_control (str_chars name)
    \<and> (\<forall>n. name_limit kind = Some n \<longrightarrow> length name \<le> n \<and> list_all (byte_in 32 126) name)"
proof -
  from assms have v: "policy_name_valid kind registration name"
    by (simp add: validate_policy_name_def result_simps)
  have "length name \<le> n" if "name_limit kind = Some n" for n
    using v that by (cases kind) (auto simp: printable_name_def)
  moreover have "list_all (byte_in 32 126) name" if "name_limit kind = Some n" for n
    using that ascii_name_bytes [OF _ v] by (cases kind) auto
  ultimately show ?thesis using policy_name_no_control [OF v] by blast
qed

theorem policy_names_safe_witness:
  "\<not> list_ex char_is_control (str_chars ''my wallet'')
   \<and> length ''my wallet'' \<le> 30 \<and> list_all (byte_in 32 126) ''my wallet''"
proof -
  have "validate_policy_name ''my wallet'' KBitBox True = Inr ()"
    by (simp add: validate_policy_name_def printable_name_def printable_byte_def byte_in_def
        starts_with_char_def ends_with_char_def)
  from policy_names_safe [OF this] show ?thesis by (simp only: name_limit.simps) blast
qed

text \<open>
  Which families accept the empty name: Ledger outside a registration (its unnamed default
  policy), and Trezor and KeepKey always.
\<close>

lemma empty_policy_name:
  "validate_policy_name [] kind registration = Inr () \<longleftrightarrow>
     (kind = KLedger \<and> \<not> registration) \<or> kind = KTrezor \<or> kind = KKeepKey"
  by (cases kind) (auto simp: validate_policy_name_def result_simps printable_name_def str_chars_def)

text \<open>
  The names a family takes, as a table: what a name is made of, how short it may be, and whether
  it may begin or end with a space. Four families look at bytes, the other three at characters.
\<close>

fun name_alphabet :: "device_kind \<Rightarrow> nat set" where
  "name_alphabet KJade = {48..57} \<union> {65..90} \<union> {97..122} \<union> {95}"
| "name_alphabet KSpecter = - {0..31} - {127..159}"
| "name_alphabet KTrezor = - {0..31} - {127..159}"
| "name_alphabet KKeepKey = - {0..31} - {127..159}"
| "name_alphabet _ = {32..126}"

definition name_units :: "device_kind \<Rightarrow> string \<Rightarrow> nat list" where
  "name_units kind name =
     (if name_limit kind = None then str_chars name else map of_char name)"

fun shortest_name :: "device_kind \<Rightarrow> nat" where
  "shortest_name KColdcard = 2"
| "shortest_name KTrezor = 0"
| "shortest_name KKeepKey = 0"
| "shortest_name _ = 1"

definition acceptable_name :: "device_kind \<Rightarrow> string \<Rightarrow> bool" where
  "acceptable_name kind name \<longleftrightarrow>
     set (name_units kind name) \<subseteq> name_alphabet kind
     \<and> shortest_name kind \<le> length name
     \<and> (\<forall>n. name_limit kind = Some n \<longrightarrow> length name \<le> n)
     \<and> (kind \<in> {KLedger, KBitBox} \<longrightarrow> hd name \<noteq> CHR '' '' \<and> last name \<noteq> CHR '' '')
     \<and> (kind = KSpecter \<longrightarrow> CHR ''&'' \<notin> set name)"

lemma char_edges:
  "starts_with_char c s \<longleftrightarrow> s \<noteq> [] \<and> hd s = c" "ends_with_char c s \<longleftrightarrow> s \<noteq> [] \<and> last s = c"
  by (cases s; simp add: starts_with_char_def) (cases s rule: rev_cases; simp add: ends_with_char_def starts_with_char_def)

lemma printable_name_iff:
  "printable_name n name \<longleftrightarrow> of_char ` set name \<subseteq> {32..126 :: nat} \<and> 1 \<le> length name
     \<and> length name \<le> n \<and> hd name \<noteq> CHR '' '' \<and> last name \<noteq> CHR '' ''"
  by (cases name)
    (auto simp: printable_name_def printable_byte_def byte_in_def list_all_iff char_edges)

lemma control_alphabet:
  "\<not> list_ex char_is_control cs \<longleftrightarrow> set cs \<subseteq> - {0..31} - {127..159}"
proof -
  have "\<not> char_is_control c \<longleftrightarrow> c \<in> - {0..31} - {127..159}" for c
    by (auto simp: char_is_control_def)
  then show ?thesis by (auto simp: list_ex_iff)
qed

lemma of_char_code: "of_char c = (of_char d :: nat) \<longleftrightarrow> c = d"
  by simp

lemma ascii_alphabet:
  "list_all (\<lambda>b. is_ascii_alphanumeric b \<or> b = CHR ''_'') name \<longleftrightarrow>
     of_char ` set name \<subseteq> {48..57} \<union> {65..90} \<union> {97..122} \<union> {95 :: nat}"
  "list_all (\<lambda>b. is_ascii_graphic b \<or> b = CHR '' '') name \<longleftrightarrow> of_char ` set name \<subseteq> {32..126 :: nat}"
proof -
  have under: "b = CHR ''_'' \<longleftrightarrow> of_char b = (95 :: nat)" for b
    using of_char_code [of b "CHR ''_''"] by simp
  have space: "b = CHR '' '' \<longleftrightarrow> of_char b = (32 :: nat)" for b
    using of_char_code [of b "CHR '' ''"] by simp
  have "is_ascii_alphanumeric b \<or> b = CHR ''_'' \<longleftrightarrow>
      of_char b \<in> {48..57} \<union> {65..90} \<union> {97..122} \<union> {95 :: nat}" for b
    unfolding under is_ascii_alphanumeric_def byte_in_def Un_iff atLeastAtMost_iff singleton_iff
    by (simp only: disj_assoc)
  moreover have "is_ascii_graphic b \<or> b = CHR '' '' \<longleftrightarrow> of_char b \<in> {32..126 :: nat}" for b
    unfolding space is_ascii_graphic_def byte_in_def atLeastAtMost_iff by linarith
  ultimately show "list_all (\<lambda>b. is_ascii_alphanumeric b \<or> b = CHR ''_'') name \<longleftrightarrow>
       of_char ` set name \<subseteq> {48..57} \<union> {65..90} \<union> {97..122} \<union> {95 :: nat}"
    and "list_all (\<lambda>b. is_ascii_graphic b \<or> b = CHR '' '') name \<longleftrightarrow>
       of_char ` set name \<subseteq> {32..126 :: nat}"
    by (simp_all only: list_all_iff image_subset_iff)
qed

lemma validate_policy_name_iff:
  "validate_policy_name name kind registration = Inr u \<longleftrightarrow>
     acceptable_name kind name \<or> kind = KLedger \<and> \<not> registration \<and> name = []"
proof -
  note defs = validate_policy_name_def require_eq acceptable_name_def name_units_def policy_name_valid.simps name_alphabet.simps
    name_limit.simps shortest_name.simps printable_name_iff control_alphabet ascii_alphabet
    device_kind.simps option.simps if_True if_False simp_thms set_map
  have member: "List.member name c \<longleftrightarrow> c \<in> set name" for c by simp
  have one: "1 \<le> length name \<longleftrightarrow> name \<noteq> []" by (cases name) simp_all
  show ?thesis
    by (cases kind; simp only: defs one le0 insert_iff empty_iff member;
        auto simp only: conj_ac simp_thms)
qed

subsection \<open>Public descriptors\<close>

text \<open>An account key: an origin-bearing xpub whose suffix derives without hardening.\<close>

fun account_key :: "descriptor_public_key \<Rightarrow> bool" where
  "account_key (Single k) = False"
| "account_key (XPub k) =
     ((\<exists>fp path. xk_origin k = Some (fp, path)) \<and> xk_wildcard k \<noteq> HardenedWildcard
      \<and> (\<forall>c \<in> set (xk_derivation_path k). \<exists>i. c = Normal i))"
| "account_key (MultiXPub k) =
     ((\<exists>fp path. mx_origin k = Some (fp, path)) \<and> mx_wildcard k \<noteq> HardenedWildcard
      \<and> (\<forall>path \<in> set (mx_derivation_paths k). \<forall>c \<in> set path. \<exists>i. c = Normal i))"

lemma not_hardened: "\<not> is_hardened c \<longleftrightarrow> (\<exists>i. c = Normal i)"
  by (cases c) simp_all

lemma account_key_iff: "account_key k \<longleftrightarrow> \<not> policy_key_rejected k"
  by (cases k) (auto simp: list_ex_iff not_hardened [symmetric])

definition public_wallet :: "crates \<Rightarrow> string \<Rightarrow> core_wallet_policy \<Rightarrow> bool" where
  "public_wallet C text policy \<longleftrightarrow>
     (\<exists>d. desc_from_str C text = Some d \<and> \<not> desc_is_bare C d \<and> desc_iter_pk C d \<noteq> []
        \<and> list_all account_key (desc_iter_pk C d) \<and> policy_from_descriptor C d = Some policy)"

lemma parse_public_wallet: "parse_public_policy C text = Inr policy \<longleftrightarrow> public_wallet C text policy"
  by (auto simp: parse_public_policy_def public_wallet_def result_simps account_key_iff
      list_all_iff list_ex_iff)

text \<open>
  C26: a wallet descriptor is accepted exactly when it parses, is not a bare script, has at
  least one key, every key is an origin-bearing account xpub with an unhardened suffix, and the
  core can turn it into a wallet policy. Single keys, secrets and hardened suffixes never get
  into a policy.
\<close>

theorem parse_public_policy_iff:
  "parse_public_policy C text = Inr policy \<longleftrightarrow>
     (\<exists>d. desc_from_str C text = Some d \<and> \<not> desc_is_bare C d \<and> desc_iter_pk C d \<noteq> []
        \<and> list_all account_key (desc_iter_pk C d) \<and> policy_from_descriptor C d = Some policy)"
  by (simp only: parse_public_wallet public_wallet_def)

subsection \<open>Contexts\<close>

text \<open>What a family makes of a wallet it accepts; four families have no context for one.\<close>

fun wallet_context :: "device_kind \<Rightarrow> wallet_policy \<Rightarrow> core_wallet_policy \<Rightarrow> device_context option" where
  "wallet_context KLedger p policy = Some (LedgerContext
     \<lparr>lw_name = wp_name p, lw_version = V2, lw_policy = policy\<rparr> (wp_ledger_hmac p))"
| "wallet_context KBitBox p policy = Some (BitBoxContext policy)"
| "wallet_context KSpecter p policy = Some (SpecterContext policy)"
| "wallet_context _ p policy = None"

text \<open>
  C25: which wallet policies a family accepts, and what it makes of them. A wallet passes exactly
  when its name is one the family takes (or the empty name on Ledger), it has no HMAC, or
  one of 32 bytes on Ledger, and its descriptor parses, is not bare and has only origin-bearing
  account xpubs with unhardened suffixes that the core can convert. What comes out is the
  family's context with that very policy, with name, version and HMAC on Ledger; for Jade,
  Coldcard, Trezor and KeepKey a valid wallet gives no context at all. Trezor and KeepKey take
  the empty name, which the README reserves to Ledger.
\<close>

theorem policy_context_iff:
  "policy_context C p kind = Inr ctx \<longleftrightarrow>
     (acceptable_name kind (wp_name p) \<or> kind = KLedger \<and> wp_name p = [])
     \<and> (wp_ledger_hmac p = None
        \<or> kind = KLedger \<and> (\<exists>hmac. wp_ledger_hmac p = Some hmac \<and> length hmac = 32))
     \<and> (\<exists>policy. public_wallet C (wp_descriptor p) policy \<and> ctx = wallet_context kind p policy)"
proof -
  have hmac: "context_hmac (wp_ledger_hmac p) kind = Inr h \<longleftrightarrow> h = wp_ledger_hmac p
      \<and> (wp_ledger_hmac p = None
        \<or> kind = KLedger \<and> (\<exists>hmac. wp_ledger_hmac p = Some hmac \<and> length hmac = 32))" for h
    by (cases "wp_ledger_hmac p") (auto simp: context_hmac_def result_simps)
  show ?thesis
    unfolding policy_context_def and_then_eq_Inr validate_policy_name_iff hmac parse_public_wallet
    by (cases kind) auto
qed

subsection \<open>Ledger signing\<close>

definition default_purposes :: "(string \<times> u32) list" where
  "default_purposes = [(''pkh(@0/**)'', 44), (''sh(wpkh(@0/**))'', 49),
     (''wpkh(@0/**)'', 84), (''tr(@0/**)'', 86)]"

definition coin_type :: "xpub \<Rightarrow> u32" where
  "coin_type x = (case xpub_network x of Main \<Rightarrow> 0 | Test \<Rightarrow> 1)"

text \<open>
  The default account of BIP 44, 49, 84 or 86: one key of one wallet, its three origin levels
  hardened and matching the script and the network, the account among the first 101, and the
  receive and change branches.
\<close>

definition standard_account :: "string \<times> descriptor_public_key list \<Rightarrow> bool" where
  "standard_account parts \<longleftrightarrow> (\<exists>template purpose key fp account.
     parts = (template, [MultiXPub key])
     \<and> (template, purpose) \<in> set default_purposes
     \<and> mx_origin key = Some (fp, [Hardened purpose, Hardened (coin_type (mx_xkey key)), Hardened account])
     \<and> account \<le> 100 \<and> xpub_depth (mx_xkey key) = 3
     \<and> xpub_child_number (mx_xkey key) = Hardened account
     \<and> mx_derivation_paths key = [[Normal 0], [Normal 1]]
     \<and> mx_wildcard key = UnhardenedWildcard)"

lemma template_purpose_iff: "template_purpose t = Some p \<longleftrightarrow> (t, p) \<in> set default_purposes"
  by (auto simp: template_purpose_def default_purposes_def)

lemma valid_default_branches_iff:
  "valid_default_branches paths w \<longleftrightarrow> paths = [[Normal 0], [Normal 1]] \<and> w = UnhardenedWildcard"
  by (auto simp: valid_default_branches_def length_Suc_conv eval_nat_numeral)

lemma valid_default_origin_iff:
  "valid_default_origin purpose coin x origin \<longleftrightarrow>
     (\<exists>account. origin = [Hardened purpose, Hardened coin, Hardened account] \<and> account \<le> 100
        \<and> xpub_depth x = 3 \<and> xpub_child_number x = Hardened account)"
  by (cases "(purpose, coin, x, origin)" rule: valid_default_origin.cases) auto

lemma coin_type_if: "(if xpub_network x = Main then 0 else 1) = coin_type x"
  by (cases "xpub_network x") (simp_all add: coin_type_def)

lemma single_multi_xpub_iff: "single_multi_xpub keys = Some key \<longleftrightarrow> keys = [MultiXPub key]"
  by (cases keys rule: single_multi_xpub.cases) auto

lemma validate_default_policy_iff: "validate_default_policy parts = Inr () \<longleftrightarrow> standard_account parts"
  by (cases parts)
    (auto simp: validate_default_policy_def standard_account_def result_simps Let_def
      single_multi_xpub_iff coin_type_if template_purpose_iff valid_default_branches_iff
      valid_default_origin_iff)

definition ledger_signing_shape :: "crates \<Rightarrow> ledger_wallet_policy \<Rightarrow> bytes option \<Rightarrow> bool" where
  "ledger_signing_shape C wallet hmac \<longleftrightarrow>
     (\<exists>h. hmac = Some h \<and> lw_name wallet \<noteq> [] \<and> h \<noteq> replicate 32 0)
     \<or> (hmac = None \<and> lw_name wallet = []
        \<and> (\<exists>parts. extract_parts C (lw_policy wallet) = Some parts \<and> standard_account parts))"

lemma validate_ledger_signing_shape:
  "validate_ledger_signing_policy C wallet hmac = Inr () \<longleftrightarrow> ledger_signing_shape C wallet hmac"
  by (cases hmac)
    (auto simp: validate_ledger_signing_policy_def ledger_signing_shape_def result_simps
      validate_default_policy_iff)

text \<open>
  C18: Ledger signing accepts exactly two shapes of policy: a named policy with a nonzero
  HMAC, and the unnamed policy without one whose descriptor is a standard single-key account.
  A named policy without its HMAC, a zero HMAC, and a nonstandard unnamed policy are refused.
\<close>

theorem ledger_signing_policy_iff:
  "validate_ledger_signing_policy C wallet hmac = Inr () \<longleftrightarrow>
     (\<exists>h. hmac = Some h \<and> lw_name wallet \<noteq> [] \<and> h \<noteq> replicate 32 0)
     \<or> (hmac = None \<and> lw_name wallet = []
        \<and> (\<exists>parts. extract_parts C (lw_policy wallet) = Some parts \<and> standard_account parts))"
  by (simp only: validate_ledger_signing_shape ledger_signing_shape_def)

end
