(* ===== verification/Commands.thy ===== *)
theory Commands
  imports Policy
begin

text \<open>
  \<open>HwiCommand::plan\<close>: the lowering of a command of the host onto a command of the core, with
  the response kind it must produce (\<open>Expect\<close>). The larger arms of its match are definitions
  of their own; \<open>plan\<close> itself keeps the arms and their order.
\<close>

section \<open>Expected responses\<close>

datatype expect =
    ExpectAny
  | ExpectInfo
  | ExpectFingerprint
  | ExpectXpub
  | ExpectAddress
  | ExpectSignature
  | ExpectSignedPsbt
  | ExpectWalletRegistration
  | ExpectDeviceAction

fun expect_matches :: "expect \<Rightarrow> core_response \<Rightarrow> bool" where
  "expect_matches ExpectAny response = True"
| "expect_matches ExpectInfo response =
     (case response of RespInfo i \<Rightarrow> True | _ \<Rightarrow> False)"
| "expect_matches ExpectFingerprint response =
     (case response of RespMasterFingerprint f \<Rightarrow> True | _ \<Rightarrow> False)"
| "expect_matches ExpectXpub response =
     (case response of RespXpub x \<Rightarrow> True | _ \<Rightarrow> False)"
| "expect_matches ExpectAddress response =
     (case response of RespAddress a \<Rightarrow> True | _ \<Rightarrow> False)"
| "expect_matches ExpectSignature response =
     (case response of RespSignature h s \<Rightarrow> True | _ \<Rightarrow> False)"
| "expect_matches ExpectSignedPsbt response =
     (case response of RespSignedPsbt p \<Rightarrow> True | _ \<Rightarrow> False)"
| "expect_matches ExpectWalletRegistration response =
     (case response of RespWalletRegistration r \<Rightarrow> True | _ \<Rightarrow> False)"
| "expect_matches ExpectDeviceAction response =
     (case response of RespDeviceAction b \<Rightarrow> True | _ \<Rightarrow> False)"

record command_plan =
  plan_command :: core_command
  plan_expect :: expect

definition mk_plan :: "core_command \<Rightarrow> expect \<Rightarrow> command_plan" where
  "mk_plan c e = \<lparr>plan_command = c, plan_expect = e\<rparr>"

section \<open>The arms of the match\<close>

definition plan_send_pin ::
    "crates \<Rightarrow> device_kind \<Rightarrow> string \<Rightarrow> hwi_error + command_plan" where
  "plan_send_pin C kind positions =
     and_then (require (\<not> (positions = [] \<or> \<not> list_all (byte_in 49 57) positions))
       (invalid ''PIN positions must be digits 1 to 9'')) (\<lambda>_.
     and_then (ok_or (invalid ''invalid PIN positions'') (host_pin_new C positions)) (\<lambda>pin.
     and_then (case kind of
         KTrezor \<Rightarrow> Inr (TrezorManagementPin pin)
       | KKeepKey \<Rightarrow> Inr (KeepKeyManagementPin pin)
       | _ \<Rightarrow> Inl (invalid ''host PIN is unsupported for this device'')) (\<lambda>context.
     Inr (mk_plan (CmdSendPin (Some context)) ExpectDeviceAction))))"

text \<open>\<open>path.first().is_some_and(|child| u32::from(child) & 0x7fff_ffff == 86)\<close>\<close>

definition taproot_purpose :: "crates \<Rightarrow> derivation_path \<Rightarrow> bool" where
  "taproot_purpose C path = (case path of
       [] \<Rightarrow> False
     | child # _ \<Rightarrow> and (child_to_u32 C child) 0x7fffffff = 86)"

definition plan_display_address ::
    "crates \<Rightarrow> device_kind \<Rightarrow> string \<Rightarrow> bool \<Rightarrow> address_format option
     \<Rightarrow> hwi_error + command_plan" where
  "plan_display_address C kind path display format =
     and_then (parse_path C path) (\<lambda>path.
     and_then (require (\<not> (kind = KKeepKey
         \<and> (format = Some Taproot \<or> (format = None \<and> taproot_purpose C path))))
       (invalid ''KeepKey does not support Taproot address display'')) (\<lambda>_.
     Inr (mk_plan
       (CmdDisplayAddress (ByPath path display (map_option address_format_to_core format)) None)
       ExpectAddress)))"

definition plan_register_wallet ::
    "crates \<Rightarrow> device_kind \<Rightarrow> string \<Rightarrow> string \<Rightarrow> hwi_error + command_plan" where
  "plan_register_wallet C kind name descriptor =
     and_then (validate_policy_name name kind True) (\<lambda>_.
     and_then (parse_public_policy C descriptor) (\<lambda>policy.
     Inr (mk_plan (CmdRegisterWallet name policy) ExpectWalletRegistration)))"

definition plan_descriptor_address ::
    "crates \<Rightarrow> device_kind \<Rightarrow> u32 \<Rightarrow> bool \<Rightarrow> bool \<Rightarrow> wallet_policy
     \<Rightarrow> hwi_error + command_plan" where
  "plan_descriptor_address C kind index change display policy =
     and_then (require (\<not> 2147483648 \<le> index)
       (invalid ''address index must be unhardened'')) (\<lambda>_.
     and_then (policy_context C policy kind) (\<lambda>context.
     and_then (require (\<not> (kind = KTrezor \<or> kind = KKeepKey))
       (invalid ''descriptor address display is unsupported for this device'')) (\<lambda>_.
     Inr (mk_plan
       (CmdDisplayAddress (ByDescriptor index change display (wp_name policy)) context)
       ExpectAddress))))"

definition plan_multisig_address ::
    "crates \<Rightarrow> device_kind \<Rightarrow> u8 \<Rightarrow> bool \<Rightarrow> multisig_address_format \<Rightarrow> string list
     \<Rightarrow> hwi_error + command_plan" where
  "plan_multisig_address C kind threshold sort_keys format keys =
     and_then (require (\<not> (keys = [] \<or> 15 < length keys \<or> threshold = 0
         \<or> length keys < unat threshold))
       (invalid ''multisig requires 1 to 15 keys and a valid threshold'')) (\<lambda>_.
     and_then (require (\<not> (kind = KKeepKey \<and> \<not> sort_keys))
       (invalid ''KeepKey requires sorted multisig address display'')) (\<lambda>_.
     and_then (try_map (parse_concrete_key C kind) keys) (\<lambda>keys.
     Inr (mk_plan
       (CmdDisplayAddress (ByMultisig \<lparr>md_threshold = threshold, md_sorted = sort_keys,
          md_address_type = multisig_format_to_core format, md_keys = keys\<rparr>) None)
       ExpectAddress))))"

text \<open>An input whose spend needs more than a single key, as far as the PSBT shows.\<close>

definition script_input :: "crates \<Rightarrow> psbt_input \<Rightarrow> bool" where
  "script_input C input =
     (pi_witness_script input \<noteq> None
      \<or> (case pi_witness_utxo input of
           None \<Rightarrow> False | Some utxo \<Rightarrow> is_p2wsh C (txout_script_pubkey utxo))
      \<or> (case pi_redeem_script input of
           None \<Rightarrow> False | Some script \<Rightarrow> \<not> is_p2wpkh C script))"

text \<open>\<open>if kind == Ledger { let Some(DeviceContext::Ledger { .. }) = &context else ..; .. }\<close>\<close>

definition check_ledger_context ::
    "crates \<Rightarrow> device_kind \<Rightarrow> device_context option \<Rightarrow> hwi_error + unit" where
  "check_ledger_context C kind context =
     (if kind = KLedger then
        (case context of
           Some (LedgerContext wallet hmac) \<Rightarrow> validate_ledger_signing_policy C wallet hmac
         | _ \<Rightarrow> Inl (invalid ''Ledger signing requires a wallet policy''))
      else Inr ())"

definition plan_sign_psbt ::
    "crates \<Rightarrow> device_kind \<Rightarrow> string \<Rightarrow> wallet_policy option
     \<Rightarrow> hwi_error + command_plan" where
  "plan_sign_psbt C kind psbt_base64 policy =
     and_then (decode_psbt C psbt_base64) (\<lambda>psbt.
     and_then (transpose_result (map_option (\<lambda>p. policy_context C p kind) policy)) (\<lambda>ctx.
     let context = Option.bind ctx (\<lambda>c. c) in
     and_then (check_ledger_context C kind context) (\<lambda>_.
     and_then (require (\<not> (kind = KBitBox \<and> context = None
         \<and> list_ex (script_input C) (ps_inputs psbt)))
       (invalid ''BitBox script signing requires its registered wallet policy'')) (\<lambda>_.
     Inr (mk_plan (CmdSignTx psbt context) ExpectSignedPsbt)))))"

section \<open>The plan of a command\<close>

fun plan :: "crates \<Rightarrow> hwi_command \<Rightarrow> device_kind \<Rightarrow> hwi_error + command_plan" where
  "plan C (Unlock network) kind =
     Inr (mk_plan (CmdUnlock (Some (network_to_core network))) ExpectAny)"
| "plan C GetVersion kind = Inr (mk_plan CmdGetVersion ExpectInfo)"
| "plan C PromptPin kind = Inr (mk_plan CmdPromptPin ExpectDeviceAction)"
| "plan C (SendPin positions) kind = plan_send_pin C kind positions"
| "plan C GetMasterFingerprint kind = Inr (mk_plan CmdGetMasterFingerprint ExpectFingerprint)"
| "plan C (GetXpub path display) kind =
     and_then (parse_path C path) (\<lambda>path. Inr (mk_plan (CmdGetXpub path display) ExpectXpub))"
| "plan C (DisplayAddress path display format) kind =
     plan_display_address C kind path display format"
| "plan C (RegisterWallet name descriptor) kind = plan_register_wallet C kind name descriptor"
| "plan C (DisplayDescriptorAddress index change display policy) kind =
     plan_descriptor_address C kind index change display policy"
| "plan C (DisplayMultisigAddress threshold sort_keys format keys) kind =
     plan_multisig_address C kind threshold sort_keys format keys"
| "plan C (SignMessage message path) kind =
     and_then (parse_path C path)
       (\<lambda>path. Inr (mk_plan (CmdSignMessage message path) ExpectSignature))"
| "plan C (SignPsbt psbt_base64 policy) kind = plan_sign_psbt C kind psbt_base64 policy"

lemmas plan_defs =
  plan_send_pin_def plan_display_address_def plan_register_wallet_def
  plan_descriptor_address_def plan_multisig_address_def plan_sign_psbt_def

lemma mk_plan_sel [simp]: "plan_command (mk_plan c e) = c" "plan_expect (mk_plan c e) = e"
  by (simp_all add: mk_plan_def)

lemma mk_plan_eq [simp]: "mk_plan c e = mk_plan c' e' \<longleftrightarrow> c = c' \<and> e = e'"
  by (simp add: mk_plan_def)

section \<open>Preflight\<close>

lemma try_map_error:
  "try_map f xs = Inl e \<Longrightarrow> (\<And>x d. f x = Inl d \<Longrightarrow> is_invalid_input d) \<Longrightarrow> is_invalid_input e"
  by (auto dest: try_map_eq_Inl)

lemma check_ledger_context_error: "check_ledger_context C kind ctx = Inl e \<Longrightarrow> is_invalid_input e"
  by (auto simp: check_ledger_context_def dest: validate_ledger_signing_policy_error
      split: if_splits option.splits device_context.splits)

lemma plan_send_pin_error: "plan_send_pin C kind positions = Inl e \<Longrightarrow> is_invalid_input e"
  by (cases kind) (auto simp: plan_send_pin_def result_simps)

lemma plan_arm_errors:
  "plan_display_address C kind path display format = Inl e \<Longrightarrow> is_invalid_input e"
  "plan_register_wallet C kind name descriptor = Inl e \<Longrightarrow> is_invalid_input e"
  "plan_descriptor_address C kind index change display policy = Inl e \<Longrightarrow> is_invalid_input e"
  "plan_multisig_address C kind threshold sort_keys ms keys = Inl e \<Longrightarrow> is_invalid_input e"
  "plan_sign_psbt C kind psbt pol = Inl e \<Longrightarrow> is_invalid_input e"
  by (auto simp: plan_defs result_simps Let_def
      dest: validation_errors check_ledger_context_error
      elim: try_map_error [OF _ parse_concrete_key_error])

text \<open>
  C28: preflight rejects with \<open>InvalidInput\<close> and nothing else, for every command and every
  family: a command that does not reach the device is never reported as a device failure, a
  refusal or a state error.
\<close>

theorem plan_rejects_as_invalid_input:
  assumes "plan C cmd kind = Inl e"
  shows "\<exists>msg. e = InvalidInput msg"
proof -
  have "is_invalid_input e"
    using assms by (cases cmd) (auto simp: result_simps dest: plan_arm_errors plan_send_pin_error parse_path_error)
  then show ?thesis by (simp add: is_invalid_input_iff)
qed

theorem plan_rejects_as_invalid_input_witness:
  "\<exists>msg. invalid ''invalid derivation path'' = InvalidInput msg"
  by (rule plan_rejects_as_invalid_input
      [where C = sample_crates and cmd = "GetXpub ''not a path'' False" and kind = KLedger])
    (simp add: parse_path_def sample_crates_def sample_path_from_str_def str_trim_def Let_def
      utf8_width_def char_is_whitespace_def)

section \<open>Commands and their responses\<close>

fun expected_of :: "hwi_command \<Rightarrow> expect" where
  "expected_of (Unlock network) = ExpectAny"
| "expected_of GetVersion = ExpectInfo"
| "expected_of PromptPin = ExpectDeviceAction"
| "expected_of (SendPin positions) = ExpectDeviceAction"
| "expected_of GetMasterFingerprint = ExpectFingerprint"
| "expected_of (GetXpub path display) = ExpectXpub"
| "expected_of (DisplayAddress path display format) = ExpectAddress"
| "expected_of (RegisterWallet name descriptor) = ExpectWalletRegistration"
| "expected_of (DisplayDescriptorAddress index change display policy) = ExpectAddress"
| "expected_of (DisplayMultisigAddress threshold sort_keys format keys) = ExpectAddress"
| "expected_of (SignMessage message path) = ExpectSignature"
| "expected_of (SignPsbt psbt policy) = ExpectSignedPsbt"

lemma plan_expect_of: "plan C cmd kind = Inr p \<Longrightarrow> plan_expect p = expected_of cmd"
  by (cases cmd) (auto simp: plan_defs result_simps Let_def)

text \<open>The typed response a host may rely on for each command.\<close>

fun answers :: "hwi_command \<Rightarrow> hwi_response \<Rightarrow> bool" where
  "answers (Unlock network) r = True"
| "answers GetVersion r = (\<exists>i. r = HwiInfo i)"
| "answers PromptPin r = (\<exists>b. r = HwiDeviceAction b)"
| "answers (SendPin positions) r = (\<exists>b. r = HwiDeviceAction b)"
| "answers GetMasterFingerprint r = (\<exists>h. r = HwiFingerprint h)"
| "answers (GetXpub path display) r = (\<exists>x. r = HwiXpub x)"
| "answers (DisplayAddress path display format) r = (\<exists>a. r = HwiAddress a)"
| "answers (RegisterWallet name descriptor) r = (\<exists>w. r = HwiWalletRegistration w)"
| "answers (DisplayDescriptorAddress index change display policy) r = (\<exists>a. r = HwiAddress a)"
| "answers (DisplayMultisigAddress threshold sort_keys format keys) r = (\<exists>a. r = HwiAddress a)"
| "answers (SignMessage message path) r = (\<exists>s. r = HwiMessageSignature s)"
| "answers (SignPsbt psbt policy) r = (\<exists>p. r = HwiSignedPsbt p)"

lemma expected_answers:
  "expect_matches (expected_of cmd) response \<Longrightarrow> answers cmd (hwi_response_from C response)"
  by (cases cmd; cases response) simp_all

section \<open>What the arms accept\<close>

subsection \<open>PINs\<close>

text \<open>
  A PIN is forwarded only to the two families that take one from the host, only when it
  is a nonempty sequence of the digits 1 to 9 that the core accepts, and then as a management
  context of that very family.
\<close>

lemma send_pin_iff:
  "plan C (SendPin positions) kind = Inr p \<longleftrightarrow>
     positions \<noteq> [] \<and> set positions \<subseteq> set ''123456789''
     \<and> (\<exists>pin. host_pin_new C positions = Some pin
        \<and> ((kind = KTrezor \<and> plan_command p = CmdSendPin (Some (TrezorManagementPin pin)))
           \<or> (kind = KKeepKey \<and> plan_command p = CmdSendPin (Some (KeepKeyManagementPin pin))))
        \<and> plan_expect p = ExpectDeviceAction)"
proof -
  have digit: "byte_in 49 57 c \<longleftrightarrow> c \<in> set ''123456789''" for c
  proof -
    have "byte_in 49 57 c \<longleftrightarrow> (of_char c :: nat) \<in> of_char ` set ''123456789''"
      by (auto simp: byte_in_def)
    then show ?thesis by (simp only: inj_image_mem_iff [OF inj_of_char])
  qed
  have "list_all (byte_in 49 57) positions \<longleftrightarrow> set positions \<subseteq> set ''123456789''"
    unfolding list_all_iff using digit by blast
  then show ?thesis
    by (cases p; cases kind) (auto simp: plan_send_pin_def result_simps mk_plan_def)
qed

subsection \<open>Multisig\<close>

text \<open>A key of a concrete multisig on a family: no wildcard, no multipath, no private step.\<close>

fun multisig_key :: "device_kind \<Rightarrow> descriptor_public_key \<Rightarrow> bool" where
  "multisig_key kind (Single k) =
     (kind \<noteq> KJade \<and> sk_origin k \<noteq> None \<and> (\<exists>key. sk_key k = FullKey True key))"
| "multisig_key kind (XPub k) =
     (kind \<in> {KJade, KTrezor} \<and> xk_origin k \<noteq> None \<and> xk_wildcard k = NoWildcard
      \<and> (\<forall>c \<in> set (xk_derivation_path k). \<exists>i. c = Normal i))"
| "multisig_key kind (MultiXPub k) = False"

lemma concrete_key_valid_iff: "concrete_key_valid kind k \<longleftrightarrow> multisig_key kind k"
  by (cases k) (auto simp: list_all_iff not_hardened [symmetric] split: single_pub_key.splits)

lemma parse_concrete_key_iff:
  "parse_concrete_key C kind text = Inr k \<longleftrightarrow> key_from_str C text = Some k \<and> multisig_key kind k"
  by (auto simp: parse_concrete_key_def result_simps concrete_key_valid_iff)

text \<open>
  C27: a raw multisig display is planned exactly when there are 1 to 15 keys, the threshold is
  between 1 and their number, KeepKey's are sorted, and every key parses to a concrete key the
  family supports; the plan carries exactly those keys in their order.
\<close>

theorem multisig_plan_iff:
  "plan C (DisplayMultisigAddress threshold sort_keys ms keys) kind = Inr p \<longleftrightarrow>
     1 \<le> length keys \<and> length keys \<le> 15 \<and> 1 \<le> unat threshold \<and> unat threshold \<le> length keys
     \<and> \<not> (kind = KKeepKey \<and> \<not> sort_keys)
     \<and> (\<exists>ks. list_all2 (\<lambda>text k. key_from_str C text = Some k \<and> multisig_key kind k) keys ks
        \<and> p = mk_plan (CmdDisplayAddress (ByMultisig \<lparr>md_threshold = threshold,
              md_sorted = sort_keys, md_address_type = multisig_format_to_core ms,
              md_keys = ks\<rparr>) None) ExpectAddress)"
proof -
  have "threshold = 0 \<longleftrightarrow> unat threshold = 0" by (simp add: unat_eq_zero)
  moreover have "keys = [] \<longleftrightarrow> length keys = 0" by simp
  ultimately show ?thesis
    by (auto simp: plan_multisig_address_def result_simps try_map_eq_Inr parse_concrete_key_iff
        not_le not_less Suc_le_eq)
qed

subsection \<open>Address display\<close>

fun child_index :: "child_number \<Rightarrow> u32" where
  "child_index (Normal i) = i"
| "child_index (Hardened i) = i"

lemma and_7fffffff: "unat (and (w :: u32) 0x7fffffff) = unat w mod 2147483648"
proof -
  have "(0x7fffffff :: u32) = mask 31" by (simp add: mask_eq_exp_minus_1)
  then have "and w 0x7fffffff = take_bit 31 w" by (simp add: take_bit_eq_mask)
  then have "unat (and w 0x7fffffff) = take_bit 31 (unat w)" by (simp only: unsigned_take_bit_eq)
  then show ?thesis by (simp add: take_bit_eq_mod)
qed

lemma taproot_purpose_iff:
  assumes "child_numbers_ok C" and "unat (child_index c) < 2147483648"
  shows "taproot_purpose C (c # cs) \<longleftrightarrow> child_index c = 86"
proof -
  let ?i = "child_index c"
  have "child_to_u32 C c = ?i \<or> child_to_u32 C c = ?i + 2147483648"
    using assms by (cases c) (auto simp: child_numbers_ok_def)
  moreover have "unat (?i + 2147483648) = unat ?i + 2147483648"
    using assms(2) by (simp add: unat_word_ariths)
  ultimately have "unat (and (child_to_u32 C c) 0x7fffffff) = unat ?i"
    using assms(2) by (auto simp: and_7fffffff)
  then have "and (child_to_u32 C c) 0x7fffffff = ?i" by (simp only: word_unat_eq_iff)
  then show ?thesis by (simp add: taproot_purpose_def)
qed

text \<open>
  On KeepKey, an address display is refused exactly when it asks for Taproot or leaves the
  format to a path of purpose 86, hardened or not; every other well-formed path is planned
  with the format it named.
\<close>

lemma keepkey_taproot_refused:
  assumes "child_numbers_ok C"
    and path: "path_from_str C (str_trim path) = Some (c # cs)"
    and range: "unat (child_index c) < 2147483648"
  shows "plan C (DisplayAddress path display format) KKeepKey =
    (if format = Some Taproot \<or> (format = None \<and> child_index c = 86)
     then Inl (InvalidInput ''KeepKey does not support Taproot address display'')
     else Inr (mk_plan (CmdDisplayAddress
       (ByPath (c # cs) display (map_option address_format_to_core format)) None) ExpectAddress))"
  using taproot_purpose_iff [OF assms(1) range]
  by (auto simp: plan_display_address_def parse_path_def path invalid_def require_def)

subsection \<open>Descriptor addresses\<close>

text \<open>
  A descriptor address is planned only for an unhardened index and never on Trezor or
  KeepKey; the command keeps the index, branch and name, and carries the context of the given
  policy.
\<close>

lemma descriptor_address_plan_iff:
  "plan C (DisplayDescriptorAddress index change display policy) kind = Inr p \<longleftrightarrow>
     unat index < 2147483648 \<and> kind \<notin> {KTrezor, KKeepKey}
     \<and> (\<exists>ctx. policy_context C policy kind = Inr ctx
        \<and> p = mk_plan (CmdDisplayAddress (ByDescriptor index change display (wp_name policy)) ctx)
                ExpectAddress)"
  by (auto simp: plan_descriptor_address_def result_simps word_le_nat_alt)

subsection \<open>Signing\<close>

lemma check_ledger_context_iff:
  "check_ledger_context C kind ctx = Inr () \<longleftrightarrow>
     (kind = KLedger \<longrightarrow> (\<exists>w hmac. ctx = Some (LedgerContext w hmac) \<and> ledger_signing_shape C w hmac))"
  by (auto simp: check_ledger_context_def validate_ledger_signing_shape
      split: option.splits device_context.splits)

lemma signing_context_iff:
  "transpose_result (map_option (\<lambda>p. policy_context C p kind) policy) = Inr x
     \<and> Option.bind x (\<lambda>c. c) = ctx \<longleftrightarrow>
   (case policy of None \<Rightarrow> x = None \<and> ctx = None
     | Some w \<Rightarrow> policy_context C w kind = Inr ctx \<and> x = Some ctx)"
  by (cases policy) (auto simp: result_simps)

text \<open>
  C17: what \<open>SignPsbt\<close> plans. The PSBT sent to the core is the decoded one and the context is
  that of the given policy, absent only when no policy is given or the family keeps none; a
  Ledger plan always has a policy of one of the two signing shapes; a BitBox plan without a
  policy has no input that spends a script.
\<close>

theorem sign_plan_iff:
  "plan C (SignPsbt psbt_base64 policy) kind = Inr p \<longleftrightarrow>
     (\<exists>psbt ctx. decode_psbt C psbt_base64 = Inr psbt
        \<and> (case policy of None \<Rightarrow> ctx = None | Some w \<Rightarrow> policy_context C w kind = Inr ctx)
        \<and> (kind = KLedger \<longrightarrow>
             (\<exists>w hmac. ctx = Some (LedgerContext w hmac) \<and> ledger_signing_shape C w hmac))
        \<and> (kind = KBitBox \<and> ctx = None \<longrightarrow> \<not> list_ex (script_input C) (ps_inputs psbt))
        \<and> p = mk_plan (CmdSignTx psbt ctx) ExpectSignedPsbt)" (is "?L \<longleftrightarrow> ?R")
proof -
  have "?L \<longleftrightarrow> (\<exists>psbt x. decode_psbt C psbt_base64 = Inr psbt
      \<and> transpose_result (map_option (\<lambda>p. policy_context C p kind) policy) = Inr x
      \<and> check_ledger_context C kind (Option.bind x (\<lambda>c. c)) = Inr ()
      \<and> (kind = KBitBox \<and> Option.bind x (\<lambda>c. c) = None
           \<longrightarrow> \<not> list_ex (script_input C) (ps_inputs psbt))
      \<and> p = mk_plan (CmdSignTx psbt (Option.bind x (\<lambda>c. c))) ExpectSignedPsbt)"
    by (auto simp: plan_sign_psbt_def result_simps Let_def)
  also have "\<dots> \<longleftrightarrow> ?R"
    unfolding check_ledger_context_iff
    by (cases policy) (auto simp: result_simps)
  finally show ?thesis .
qed

text \<open>A real request: a singlesig PSBT on BitBox needs no policy.\<close>

theorem sign_plan_iff_witness:
  "\<exists>p. plan sample_crates (SignPsbt (encode_psbt sample_crates sample_psbt) None) KBitBox = Inr p"
proof -
  have "decode_psbt sample_crates (encode_psbt sample_crates sample_psbt) = Inr sample_psbt"
    using psbt_encode_decode [OF sample_base64_ok] by (simp add: sample_crates_def)
  moreover have "\<not> list_ex (script_input sample_crates) (ps_inputs sample_psbt)"
    by (simp add: sample_psbt_def sample_psbt_input_def default_psbt_input_def script_input_def
        sample_crates_def)
  ultimately show ?thesis unfolding sign_plan_iff by auto
qed

end
