(* ===== verification/Session.thy ===== *)
theory Session
  imports Handles Psbt_Gate Commands
begin

text \<open>
  One in-flight command (\<open>Session\<close> of \<open>interp.rs\<close>): the interpreters of the seven families
  behind one dispatch (\<open>Inner\<close>), the lease a session holds (\<open>StateLease\<close>), and the session's
  own steps \<open>start\<close>, \<open>require_running\<close> and \<open>advance\<close>. The interpreters are the core's: each
  family is a record of functions over a state of its own and the device state it borrows.
\<close>

section \<open>The core's interpreters\<close>

text \<open>A command lowered once: \<open>TryFrom<Ready<C>>\<close> hands it over and cannot fail.\<close>

datatype 'c ready = Ready 'c

fun ready_try_from :: "'c ready \<Rightarrow> core_error + 'c" where
  "ready_try_from (Ready c) = Inr c"

text \<open>
  A family: lowering of a core command, and \<open>start\<close>, \<open>exchange\<close> and \<open>end\<close> of its interpreter.
  \<open>'i\<close> is what they read of a borrowed handle and \<open>'o\<close> what they leave there; BitBox also
  reports the pairing codes its hook fires.
\<close>

record ('m, 'c, 'i, 'o) machine =
  mc_lower :: "core_command \<Rightarrow> core_error + 'c"
  mc_start :: "'m \<Rightarrow> 'i \<Rightarrow> 'c ready \<Rightarrow> 'm \<times> 'o \<times> (core_error + core_transmit)"
  mc_exchange :: "'m \<Rightarrow> 'i \<Rightarrow> bytes \<Rightarrow> 'm \<times> 'o \<times> (core_error + core_transmit option)"
  mc_end :: "'m \<Rightarrow> 'i \<Rightarrow> 'o \<times> (core_error + core_response)"

record ('m, 'c, 'n, 'e) families =
  fam_bitbox :: "('m, 'c, 'n, 'n \<times> string list) machine"
  fam_coldcard :: "('m, 'c, 'e, 'e) machine"
  fam_jade :: "('m, 'c, unit, unit) machine"
  fam_ledger :: "('m, 'c, unit, unit) machine"
  fam_trezor :: "('m, 'c, unit, unit) machine"
  fam_keepkey :: "('m, 'c, unit, unit) machine"
  fam_specter :: "('m, 'c, unit, unit) machine"
  bitbox_new :: "core_network \<Rightarrow> 'm"
  coldcard_new :: 'm
  jade_new :: "core_network \<Rightarrow> 'm"
  ledger_new :: 'm
  trezor_new :: "core_network \<Rightarrow> host_passphrase option \<Rightarrow> bool \<Rightarrow> 'm"
  keepkey_new :: "core_network \<Rightarrow> host_passphrase option \<Rightarrow> 'm"
  specter_new :: "core_network \<Rightarrow> 'm"
  ledger_register_policy :: "'c \<Rightarrow> ledger_wallet_policy option"
  engine_ready :: "'e \<Rightarrow> bytes \<Rightarrow> 'e \<times> (string + unit)"
  usize_bits :: nat

section \<open>Inner and StateLease\<close>

datatype 'm inner =
    BitBoxI handle 'm
  | ColdcardI handle 'm
  | JadeI 'm
  | LedgerI 'm
  | TrezorI 'm
  | KeepKeyI 'm
  | SpecterI 'm

datatype state_lease = LeaseNone | LeaseNoise handle | LeaseColdcard handle

text \<open>An operation through the reference to a leased noise state, or a leased engine.\<close>

definition on_noise ::
    "handle \<Rightarrow> ('n \<Rightarrow> 'x \<times> ('n \<times> string list) \<times> 'r) \<Rightarrow> ('n, 'e) device_state
     \<Rightarrow> 'x \<times> ('n, 'e) device_state \<times> 'r" where
  "on_noise h f d =
     (let nh = noises d h in case f (get_leased (nh_state nh)) of
        (x, (n, codes), r) \<Rightarrow>
          (x, set_noise h (nh\<lparr>nh_state := (nh_state nh)\<lparr>cell := n\<rparr>,
             nh_pairing_code := fold pairing_hook codes (nh_pairing_code nh)\<rparr>) d, r))"

definition on_coldcard ::
    "handle \<Rightarrow> ('e \<Rightarrow> 'x \<times> 'e \<times> 'r) \<Rightarrow> ('n, 'e) device_state
     \<Rightarrow> 'x \<times> ('n, 'e) device_state \<times> 'r" where
  "on_coldcard h f d =
     (let ch = coldcards d h in case f (get_leased (ce_engine ch)) of
        (x, e, r) \<Rightarrow> (x, set_coldcard h (ch\<lparr>ce_engine := (ce_engine ch)\<lparr>cell := e\<rparr>\<rparr>) d, r))"

definition on_nothing :: "(unit \<Rightarrow> 'x \<times> unit \<times> 'r) \<Rightarrow> ('n, 'e) device_state
     \<Rightarrow> 'x \<times> ('n, 'e) device_state \<times> 'r" where
  "on_nothing f d = (case f () of (x, _, r) \<Rightarrow> (x, d, r))"

definition wrap_inner :: "('m \<Rightarrow> 'm inner) \<Rightarrow> 'm \<times> 'd \<times> 'r \<Rightarrow> 'm inner \<times> 'd \<times> 'r" where
  "wrap_inner w x = (case x of (m, d, r) \<Rightarrow> (w m, d, r))"

fun inner_exchange ::
    "('m, 'c, 'n, 'e) families \<Rightarrow> bytes \<Rightarrow> 'm inner \<Rightarrow> ('n, 'e) device_state
     \<Rightarrow> 'm inner \<times> ('n, 'e) device_state \<times> (core_error + core_transmit option)" where
  "inner_exchange F data (BitBoxI h m) d =
     wrap_inner (BitBoxI h) (on_noise h (\<lambda>n. mc_exchange (fam_bitbox F) m n data) d)"
| "inner_exchange F data (ColdcardI h m) d =
     wrap_inner (ColdcardI h) (on_coldcard h (\<lambda>e. mc_exchange (fam_coldcard F) m e data) d)"
| "inner_exchange F data (JadeI m) d =
     wrap_inner JadeI (on_nothing (\<lambda>u. mc_exchange (fam_jade F) m u data) d)"
| "inner_exchange F data (LedgerI m) d =
     wrap_inner LedgerI (on_nothing (\<lambda>u. mc_exchange (fam_ledger F) m u data) d)"
| "inner_exchange F data (TrezorI m) d =
     wrap_inner TrezorI (on_nothing (\<lambda>u. mc_exchange (fam_trezor F) m u data) d)"
| "inner_exchange F data (KeepKeyI m) d =
     wrap_inner KeepKeyI (on_nothing (\<lambda>u. mc_exchange (fam_keepkey F) m u data) d)"
| "inner_exchange F data (SpecterI m) d =
     wrap_inner SpecterI (on_nothing (\<lambda>u. mc_exchange (fam_specter F) m u data) d)"

text \<open>\<open>interpreter.start(Ready(command))\<close> of the \<open>start!\<close> macro.\<close>

fun inner_start ::
    "('m, 'c, 'n, 'e) families \<Rightarrow> 'c ready \<Rightarrow> 'm inner \<Rightarrow> ('n, 'e) device_state
     \<Rightarrow> 'm inner \<times> ('n, 'e) device_state \<times> (core_error + core_transmit)" where
  "inner_start F c (BitBoxI h m) d =
     wrap_inner (BitBoxI h) (on_noise h (\<lambda>n. mc_start (fam_bitbox F) m n c) d)"
| "inner_start F c (ColdcardI h m) d =
     wrap_inner (ColdcardI h) (on_coldcard h (\<lambda>e. mc_start (fam_coldcard F) m e c) d)"
| "inner_start F c (JadeI m) d = wrap_inner JadeI (on_nothing (\<lambda>u. mc_start (fam_jade F) m u c) d)"
| "inner_start F c (LedgerI m) d =
     wrap_inner LedgerI (on_nothing (\<lambda>u. mc_start (fam_ledger F) m u c) d)"
| "inner_start F c (TrezorI m) d =
     wrap_inner TrezorI (on_nothing (\<lambda>u. mc_start (fam_trezor F) m u c) d)"
| "inner_start F c (KeepKeyI m) d =
     wrap_inner KeepKeyI (on_nothing (\<lambda>u. mc_start (fam_keepkey F) m u c) d)"
| "inner_start F c (SpecterI m) d =
     wrap_inner SpecterI (on_nothing (\<lambda>u. mc_start (fam_specter F) m u c) d)"

text \<open>\<open><$command>::try_from(plan.command)\<close> of the macro.\<close>

fun inner_lower :: "('m, 'c, 'n, 'e) families \<Rightarrow> 'm inner \<Rightarrow> core_command \<Rightarrow> core_error + 'c" where
  "inner_lower F (BitBoxI h m) cmd = mc_lower (fam_bitbox F) cmd"
| "inner_lower F (ColdcardI h m) cmd = mc_lower (fam_coldcard F) cmd"
| "inner_lower F (JadeI m) cmd = mc_lower (fam_jade F) cmd"
| "inner_lower F (LedgerI m) cmd = mc_lower (fam_ledger F) cmd"
| "inner_lower F (TrezorI m) cmd = mc_lower (fam_trezor F) cmd"
| "inner_lower F (KeepKeyI m) cmd = mc_lower (fam_keepkey F) cmd"
| "inner_lower F (SpecterI m) cmd = mc_lower (fam_specter F) cmd"

text \<open>\<open>Inner::end\<close> consumes the interpreter.\<close>

fun inner_end ::
    "('m, 'c, 'n, 'e) families \<Rightarrow> 'm inner \<Rightarrow> ('n, 'e) device_state
     \<Rightarrow> ('n, 'e) device_state \<times> (core_error + core_response)" where
  "inner_end F (BitBoxI h m) d = snd (on_noise h (\<lambda>n. ((), mc_end (fam_bitbox F) m n)) d)"
| "inner_end F (ColdcardI h m) d = snd (on_coldcard h (\<lambda>e. ((), mc_end (fam_coldcard F) m e)) d)"
| "inner_end F (JadeI m) d = snd (on_nothing (\<lambda>u. ((), mc_end (fam_jade F) m u)) d)"
| "inner_end F (LedgerI m) d = snd (on_nothing (\<lambda>u. ((), mc_end (fam_ledger F) m u)) d)"
| "inner_end F (TrezorI m) d = snd (on_nothing (\<lambda>u. ((), mc_end (fam_trezor F) m u)) d)"
| "inner_end F (KeepKeyI m) d = snd (on_nothing (\<lambda>u. ((), mc_end (fam_keepkey F) m u)) d)"
| "inner_end F (SpecterI m) d = snd (on_nothing (\<lambda>u. ((), mc_end (fam_specter F) m u)) d)"

text \<open>\<open>Drop for StateLease\<close>.\<close>

fun drop_lease :: "state_lease \<Rightarrow> ('n, 'e) device_state \<Rightarrow> ('n, 'e) device_state" where
  "drop_lease LeaseNone d = d"
| "drop_lease (LeaseNoise h) d = key_release (NoiseKey h) d"
| "drop_lease (LeaseColdcard h) d = key_release (ColdcardKey h) d"

section \<open>Session\<close>

record 'm session =
  ses_inner :: "'m inner"
  ses_lease :: state_lease
  ses_kind :: device_kind
  ses_started :: bool
  ses_finished :: bool
  ses_expect :: expect
  ses_prior_inputs :: "psbt_input list"
  ses_prior_unsigned_tx :: "wtxid option"
  ses_registration_id :: "bytes option"

text \<open>
  The Ledger arm binds a registration to the identity of the lowered policy; the other arms
  leave the field as it is.
\<close>

definition registration_id_of ::
    "crates \<Rightarrow> ('m, 'c, 'n, 'e) families \<Rightarrow> 'm session \<Rightarrow> 'c \<Rightarrow> hwi_error + bytes option" where
  "registration_id_of C F s command = (case ses_inner s of
       LedgerI m \<Rightarrow>
         (case ledger_register_policy F command of
            Some policy \<Rightarrow> map_ok Some
              (ok_or (invalid ''invalid Ledger wallet policy'') (ledger_policy_id C policy))
          | None \<Rightarrow> Inr None)
     | _ \<Rightarrow> Inr (ses_registration_id s))"

definition session_start ::
    "crates \<Rightarrow> ('m, 'c, 'n, 'e) families \<Rightarrow> command_plan \<Rightarrow> 'm session \<Rightarrow> ('n, 'e) device_state
     \<Rightarrow> 'm session \<times> ('n, 'e) device_state \<times> (hwi_error + transmit)" where
  "session_start C F p s d =
     (let (prior_inputs, prior_unsigned_tx) = prior_of_command C (plan_command p) in
      case inner_lower F (ses_inner s) (plan_command p) of
        Inl e \<Rightarrow> (s, d, Inl (map_error e (ses_kind s)))
      | Inr command \<Rightarrow>
          (case registration_id_of C F s command of
             Inl e \<Rightarrow> (s, d, Inl e)
           | Inr registration_id \<Rightarrow>
               (case inner_start F (Ready command) (ses_inner s) d of
                  (i, d', r) \<Rightarrow>
                    (s\<lparr>ses_inner := i, ses_started := True, ses_expect := plan_expect p,
                       ses_prior_inputs := prior_inputs,
                       ses_prior_unsigned_tx := prior_unsigned_tx,
                       ses_registration_id := registration_id\<rparr>, d',
                     map_ok transmit_from (map_err (\<lambda>e. map_error e (ses_kind s)) r)))))"

definition require_running :: "'m session \<Rightarrow> hwi_error + unit" where
  "require_running s =
     (if \<not> ses_started s then Inl (bad_state ''command has not started'')
      else if ses_finished s then Inl (bad_state ''command is finished'')
      else Inr ())"

text \<open>\<open>usize::try_from(..).ok().and_then(|len| len.checked_add(8))\<close> on the target's \<open>usize\<close>.\<close>

definition usize_checked_add :: "nat \<Rightarrow> nat \<Rightarrow> nat \<Rightarrow> nat option" where
  "usize_checked_add bits a b =
     (if a < 2 ^ bits then (if a + b < 2 ^ bits then Some (a + b) else None) else None)"

definition malformed_reply :: "nat \<Rightarrow> bytes \<Rightarrow> bool" where
  "malformed_reply bits reply =
     (length reply < 8 \<or> take 2 reply \<noteq> [35, 35]
      \<or> usize_checked_add bits (unat (u32_from_be (take 4 (drop 4 reply)))) 8
          \<noteq> Some (length reply))"

text \<open>A final success that is not exactly the expected policy identity and an HMAC.\<close>

definition registration_mismatch :: "crates \<Rightarrow> bytes \<Rightarrow> bytes \<Rightarrow> bool" where
  "registration_mismatch C expected_id reply =
     (2 \<le> length reply
      \<and> status_word_from C (u16_from_be (drop (length reply - 2) reply)) = Some (status_word_ok C)
      \<and> (length reply \<noteq> 66 \<or> take 32 reply \<noteq> expected_id))"

definition session_advance ::
    "crates \<Rightarrow> ('m, 'c, 'n, 'e) families \<Rightarrow> bytes \<Rightarrow> 'm session \<Rightarrow> ('n, 'e) device_state
     \<Rightarrow> 'm session \<times> ('n, 'e) device_state \<times> (hwi_error + transmit option)" where
  "session_advance C F reply s d =
     (if (ses_kind s = KTrezor \<or> ses_kind s = KKeepKey) \<and> malformed_reply (usize_bits F) reply then
        (s, d, Inl (Device ''malformed device protocol reply''))
      else if (case ses_registration_id s of
                 None \<Rightarrow> False | Some expected_id \<Rightarrow> registration_mismatch C expected_id reply) then
        (s, d, Inl (Device ''invalid Ledger wallet registration response''))
      else
        (case inner_exchange F reply (ses_inner s) d of
           (i, d', Inl e) \<Rightarrow> (s\<lparr>ses_inner := i\<rparr>, d', Inl (map_error e (ses_kind s)))
         | (i, d', Inr (Some t)) \<Rightarrow> (s\<lparr>ses_inner := i\<rparr>, d', Inr (Some (transmit_from t)))
         | (i, d', Inr None) \<Rightarrow> (s\<lparr>ses_inner := i, ses_finished := True\<rparr>, d', Inr None)))"

section \<open>The borrow contract\<close>

text \<open>What an interpreter borrows, and the family it is of.\<close>

fun inner_ref :: "'m inner \<Rightarrow> state_lease" where
  "inner_ref (BitBoxI h m) = LeaseNoise h"
| "inner_ref (ColdcardI h m) = LeaseColdcard h"
| "inner_ref _ = LeaseNone"

fun inner_kind :: "'m inner \<Rightarrow> device_kind" where
  "inner_kind (BitBoxI h m) = KBitBox"
| "inner_kind (ColdcardI h m) = KColdcard"
| "inner_kind (JadeI m) = KJade"
| "inner_kind (LedgerI m) = KLedger"
| "inner_kind (TrezorI m) = KTrezor"
| "inner_kind (KeepKeyI m) = KKeepKey"
| "inner_kind (SpecterI m) = KSpecter"

fun lease_key_of :: "state_lease \<Rightarrow> lease_key option" where
  "lease_key_of LeaseNone = None"
| "lease_key_of (LeaseNoise h) = Some (NoiseKey h)"
| "lease_key_of (LeaseColdcard h) = Some (ColdcardKey h)"

text \<open>Two stores that agree outside one borrowed cell, leases included.\<close>

definition agree_outside :: "state_lease \<Rightarrow> ('n, 'e) device_state \<Rightarrow> ('n, 'e) device_state \<Rightarrow> bool" where
  "agree_outside l d d' \<longleftrightarrow>
     (\<forall>k. key_held k d' = key_held k d)
     \<and> (\<forall>h. l \<noteq> LeaseNoise h \<longrightarrow> noises d' h = noises d h)
     \<and> (\<forall>h. l \<noteq> LeaseColdcard h \<longrightarrow> coldcards d' h = coldcards d h)"

locale borrowing_op =
  fixes bop :: "'x \<Rightarrow> 'm inner \<Rightarrow> ('n, 'e) device_state \<Rightarrow> 'm inner \<times> ('n, 'e) device_state \<times> 'r"
  assumes bop_ref: "inner_ref (fst (bop x i d)) = inner_ref i"
    and bop_kind: "inner_kind (fst (bop x i d)) = inner_kind i"
    and bop_frame: "agree_outside (inner_ref i) d (fst (snd (bop x i d)))"
begin

lemma bop_held: "key_held k (fst (snd (bop x i d))) = key_held k d"
  using bop_frame by (auto simp: agree_outside_def)

lemma bop_books:
  "lease_books key_held holder d \<Longrightarrow> lease_books key_held holder (fst (snd (bop x i d)))"
  by (erule lease_books_cong) (rule bop_held)

lemma bop_keeps:
  "bop x i d = (i', d', r) \<Longrightarrow> inner_ref i' = inner_ref i \<and> inner_kind i' = inner_kind i
     \<and> agree_outside (inner_ref i) d d'"
  using bop_ref [of x i d] bop_kind [of x i d] bop_frame [of i d x] by simp

end

lemma agree_outside_refl: "agree_outside l d d"
  by (simp add: agree_outside_def)

lemma agree_outside_trans:
  "agree_outside l a b \<Longrightarrow> agree_outside l b c \<Longrightarrow> agree_outside l a c"
  by (simp add: agree_outside_def)

lemma on_noise_frame: "agree_outside (LeaseNoise h) d (fst (snd (on_noise h f d)))"
proof -
  have "key_held k (fst (snd (on_noise h f d))) = key_held k d" for k
    by (cases k) (simp_all add: on_noise_def Let_def split: prod.splits)
  then show ?thesis by (simp add: agree_outside_def on_noise_def Let_def split: prod.splits)
qed

lemma on_coldcard_frame: "agree_outside (LeaseColdcard h) d (fst (snd (on_coldcard h f d)))"
proof -
  have "key_held k (fst (snd (on_coldcard h f d))) = key_held k d" for k
    by (cases k) (simp_all add: on_coldcard_def Let_def split: prod.splits)
  then show ?thesis by (simp add: agree_outside_def on_coldcard_def Let_def split: prod.splits)
qed

lemma on_nothing_state [simp]: "fst (snd (on_nothing f d)) = d"
  by (simp add: on_nothing_def split: prod.splits)

lemma wrap_inner_sel [simp]:
  "fst (wrap_inner w x) = w (fst x)" "snd (wrap_inner w x) = snd x"
  by (simp_all add: wrap_inner_def split: prod.splits)

lemmas borrow_frames = on_noise_frame on_coldcard_frame agree_outside_refl

interpretation exchange_op: borrowing_op "inner_exchange F" for F :: "('m, 'c, 'n, 'e) families"
proof
  fix x i and d :: "('n, 'e) device_state"
  show "inner_ref (fst (inner_exchange F x i d)) = inner_ref i" by (cases i) simp_all
  show "inner_kind (fst (inner_exchange F x i d)) = inner_kind i" by (cases i) simp_all
  show "agree_outside (inner_ref i) d (fst (snd (inner_exchange F x i d)))"
    by (cases i) (simp_all add: borrow_frames)
qed

interpretation start_op: borrowing_op "inner_start F" for F :: "('m, 'c, 'n, 'e) families"
proof
  fix x i and d :: "('n, 'e) device_state"
  show "inner_ref (fst (inner_start F x i d)) = inner_ref i" by (cases i) simp_all
  show "inner_kind (fst (inner_start F x i d)) = inner_kind i" by (cases i) simp_all
  show "agree_outside (inner_ref i) d (fst (snd (inner_start F x i d)))"
    by (cases i) (simp_all add: borrow_frames)
qed

lemma inner_end_frame: "agree_outside (inner_ref i) d (fst (inner_end F i d))"
  by (cases i) (simp_all add: borrow_frames)

section \<open>The session's invariant\<close>

text \<open>
  A session's lease is on the very cell its interpreter borrows, its kind is its interpreter's,
  it finishes only after it has started, and only a Ledger registers wallets.
\<close>

definition wf_session :: "'m session \<Rightarrow> bool" where
  "wf_session s \<longleftrightarrow> ses_lease s = inner_ref (ses_inner s) \<and> ses_kind s = inner_kind (ses_inner s)
     \<and> (ses_finished s \<longrightarrow> ses_started s)
     \<and> (ses_registration_id s \<noteq> None \<longrightarrow> ses_kind s = KLedger)"

lemma registration_id_kept:
  "registration_id_of C F s c = Inr r \<Longrightarrow> inner_kind (ses_inner s) \<noteq> KLedger
     \<Longrightarrow> r = ses_registration_id s"
  by (auto simp: registration_id_of_def split: inner.splits)

lemma session_start_keeps:
  assumes "session_start C F p s d = (s', d', r)"
  shows "agree_outside (inner_ref (ses_inner s)) d d' \<and> ses_lease s' = ses_lease s
    \<and> ses_kind s' = ses_kind s \<and> ses_finished s' = ses_finished s
    \<and> inner_ref (ses_inner s') = inner_ref (ses_inner s)
    \<and> inner_kind (ses_inner s') = inner_kind (ses_inner s)
    \<and> (ses_started s \<longrightarrow> ses_started s')
    \<and> (inner_kind (ses_inner s) \<noteq> KLedger \<longrightarrow> ses_registration_id s' = ses_registration_id s)"
proof (cases "inner_lower F (ses_inner s) (plan_command p)")
  case (Inl e)
  with assms show ?thesis
    by (auto simp: session_start_def agree_outside_refl split: prod.splits)
next
  case (Inr c)
  show ?thesis
  proof (cases "registration_id_of C F s c")
    case (Inl e)
    with Inr assms show ?thesis
      by (auto simp: session_start_def agree_outside_refl split: prod.splits)
  next
    case reg: (Inr id)
    with Inr assms show ?thesis
      by (auto simp: session_start_def Let_def split: prod.splits
          dest!: start_op.bop_keeps registration_id_kept)
  qed
qed

lemma session_advance_keeps:
  assumes "session_advance C F reply s d = (s', d', r)"
  shows "agree_outside (inner_ref (ses_inner s)) d d' \<and> ses_lease s' = ses_lease s
    \<and> ses_kind s' = ses_kind s \<and> ses_started s' = ses_started s \<and> ses_expect s' = ses_expect s
    \<and> ses_registration_id s' = ses_registration_id s \<and> ses_prior_inputs s' = ses_prior_inputs s
    \<and> ses_prior_unsigned_tx s' = ses_prior_unsigned_tx s
    \<and> inner_ref (ses_inner s') = inner_ref (ses_inner s)
    \<and> inner_kind (ses_inner s') = inner_kind (ses_inner s)"
  using assms
  by (auto simp: session_advance_def agree_outside_refl dest!: exchange_op.bop_keeps
      split: if_splits prod.splits sum.splits option.splits)

lemma session_start_wf: "session_start C F p s d = (s', d', r) \<Longrightarrow> wf_session s \<Longrightarrow> wf_session s'"
  by (auto dest!: session_start_keeps simp: wf_session_def)

lemma session_advance_wf:
  "session_advance C F reply s d = (s', d', r) \<Longrightarrow> wf_session s \<Longrightarrow> ses_started s \<Longrightarrow> wf_session s'"
  by (auto dest!: session_advance_keeps simp: wf_session_def)

text \<open>The errors of the two steps: preflight leaves everything as it was; nothing here is a
  \<open>BadState\<close>.\<close>

lemma session_start_preflight:
  "session_start C F p s d = (s', d', r) \<Longrightarrow> \<not> ses_started s' \<Longrightarrow> s' = s \<and> d' = d"
  by (auto simp: session_start_def split: prod.splits sum.splits)

lemma registration_id_of_error: "registration_id_of C F s c = Inl e \<Longrightarrow> \<not> is_bad_state e"
  by (auto simp: registration_id_of_def result_simps split: inner.splits option.splits)

lemma session_start_not_bad_state:
  "session_start C F p s d = (s', d', Inl e) \<Longrightarrow> \<not> is_bad_state e"
  by (auto simp: session_start_def result_simps dest: registration_id_of_error
      split: prod.splits sum.splits)

lemma session_start_ok:
  "session_start C F p s d = (s', d', Inr t) \<Longrightarrow> ses_started s' \<and> ses_expect s' = plan_expect p
     \<and> (ses_prior_inputs s', ses_prior_unsigned_tx s') = prior_of_command C (plan_command p)"
  by (auto simp: session_start_def split: prod.splits sum.splits)

lemma session_advance_not_bad_state:
  "session_advance C F reply s d = (s', d', Inl e) \<Longrightarrow> \<not> is_bad_state e"
  by (auto simp: session_advance_def split: if_splits prod.splits sum.splits option.splits)

section \<open>What reaches the interpreters\<close>

text \<open>A reply handed to the interpreter, and the session after it.\<close>

definition hand_over ::
    "('m, 'c, 'n, 'e) families \<Rightarrow> bytes \<Rightarrow> 'm session \<Rightarrow> ('n, 'e) device_state
     \<Rightarrow> 'm session \<times> ('n, 'e) device_state \<times> (hwi_error + transmit option)" where
  "hand_over F reply s d = (case inner_exchange F reply (ses_inner s) d of (i, d', r) \<Rightarrow>
     (s\<lparr>ses_inner := i, ses_finished := (ses_finished s \<or> r = Inr None)\<rparr>, d',
      map_ok (map_option transmit_from) (map_err (\<lambda>e. map_error e (ses_kind s)) r)))"

lemma session_keep_finished: "s\<lparr>ses_inner := i, ses_finished := ses_finished s\<rparr> = s\<lparr>ses_inner := i\<rparr>"
  by simp

lemma session_advance_hand_over:
  "session_advance C F reply s d =
     (if (ses_kind s = KTrezor \<or> ses_kind s = KKeepKey) \<and> malformed_reply (usize_bits F) reply
      then (s, d, Inl (Device ''malformed device protocol reply''))
      else if \<exists>pid. ses_registration_id s = Some pid \<and> registration_mismatch C pid reply
      then (s, d, Inl (Device ''invalid Ledger wallet registration response''))
      else hand_over F reply s d)"
  by (auto simp: session_advance_def hand_over_def
      split: option.splits prod.splits sum.splits)

section \<open>A concrete family\<close>

text \<open>
  One interpreter on which the theorems with hypotheses are shown to apply: it remembers its
  command, is done after one reply that is not empty, and answers as the command asks.
\<close>

fun sample_response :: "core_command \<Rightarrow> core_response" where
  "sample_response (CmdSignTx p ctx) = RespSignedPsbt p"
| "sample_response CmdGetMasterFingerprint = RespMasterFingerprint [245, 172, 194, 253]"
| "sample_response CmdPromptPin = RespDeviceAction True"
| "sample_response cmd = RespTaskDone"

definition sample_machine :: "('i \<Rightarrow> 'o) \<Rightarrow> (core_command option, core_command, 'i, 'o) machine" where
  "sample_machine keep = \<lparr>
     mc_lower = Inr,
     mc_start = (\<lambda>m i c. (case c of Ready cmd \<Rightarrow> Some cmd, keep i,
       Inr \<lparr>ct_payload = [1], ct_encrypted = False, ct_recipient = CoreToDevice\<rparr>)),
     mc_exchange = (\<lambda>m i reply.
       (m, keep i, if reply = [] then Inl (CSerialization ''empty'') else Inr None)),
     mc_end = (\<lambda>m i. (keep i, case m of None \<Rightarrow> Inl CNoErrorOrResult
       | Some cmd \<Rightarrow> Inr (sample_response cmd)))\<rparr>"

definition sample_families ::
    "(core_command option, core_command, noise_config_data, nat) families" where
  "sample_families = \<lparr>
     fam_bitbox = sample_machine (\<lambda>n. (n, [''code''])), fam_coldcard = sample_machine Suc,
     fam_jade = sample_machine (\<lambda>u. u), fam_ledger = sample_machine (\<lambda>u. u),
     fam_trezor = sample_machine (\<lambda>u. u), fam_keepkey = sample_machine (\<lambda>u. u),
     fam_specter = sample_machine (\<lambda>u. u),
     bitbox_new = (\<lambda>n. None), coldcard_new = None, jade_new = (\<lambda>n. None), ledger_new = None,
     trezor_new = (\<lambda>n p b. None), keepkey_new = (\<lambda>n p. None), specter_new = (\<lambda>n. None),
     ledger_register_policy = (\<lambda>c. None),
     engine_ready = (\<lambda>e key. (e, Inr ())),
     usize_bits = 64\<rparr>"

definition sample_session :: "core_command option inner \<Rightarrow> core_command option session" where
  "sample_session i = \<lparr>ses_inner = i, ses_lease = inner_ref i, ses_kind = inner_kind i,
     ses_started = True, ses_finished = False, ses_expect = ExpectAny, ses_prior_inputs = [],
     ses_prior_unsigned_tx = None, ses_registration_id = None\<rparr>"

definition sample_devices :: "(noise_config_data, nat) device_state" where
  "sample_devices = \<lparr>
     noises = (\<lambda>_. \<lparr>nh_state = new_leased (noise_state_new sample_noise None),
       nh_pairing_code = new_mutex None\<rparr>),
     coldcards = (\<lambda>_. coldcard_encryption_new length [])\<rparr>"

section \<open>Framing and binding of replies\<close>

text \<open>The message framing of Trezor and KeepKey: two marks, a type, the payload's length.\<close>

definition framed :: "bytes \<Rightarrow> bool" where
  "framed reply \<longleftrightarrow> (\<exists>ty payload. length ty = 2 \<and> length payload < 2 ^ 32
     \<and> reply = [35, 35] @ ty @ u32_to_be (length payload) @ payload)"

lemma checked_add_is: "n < 2 ^ bits \<Longrightarrow> usize_checked_add bits a b = Some n \<longleftrightarrow> a + b = n"
  by (auto simp: usize_checked_add_def)

lemma framed_iff:
  assumes "length reply < 2 ^ bits"
  shows "\<not> malformed_reply bits reply \<longleftrightarrow> framed reply"
proof
  assume "\<not> malformed_reply bits reply"
  then have len: "8 \<le> length reply" and marks: "take 2 reply = [35, 35]"
    and n: "unat (u32_from_be (take 4 (drop 4 reply))) + 8 = length reply"
    by (simp_all add: malformed_reply_def checked_add_is [OF assms])
  let ?ty = "take 2 (drop 2 reply)" and ?p = "drop 8 reply"
  have four: "length (take 4 (drop 4 reply)) = 4" using len by simp
  have p: "length ?p = unat (u32_from_be (take 4 (drop 4 reply)))" using n by simp
  have "reply = take 2 reply @ take 2 (drop 2 reply) @ take 4 (drop 4 reply) @ drop 8 reply"
    using append_take_drop_id [of 2 reply] append_take_drop_id [of 2 "drop 2 reply"]
      append_take_drop_id [of 4 "drop 4 reply"] by (simp del: append_take_drop_id)
  then have "reply = [35, 35] @ ?ty @ u32_to_be (length ?p) @ ?p"
    using marks u32_to_from_be [OF four] p by simp
  moreover have "length ?p < 2 ^ 32"
    using p unsigned_less [of "u32_from_be (take 4 (drop 4 reply))", where ?'a = nat] by simp
  moreover have "length ?ty = 2" using len by simp
  ultimately show "framed reply" unfolding framed_def by blast
next
  assume "framed reply"
  then obtain ty payload where ty: "length ty = 2" and lt: "length payload < 2 ^ 32"
    and reply: "reply = [35, 35] @ ty @ u32_to_be (length payload) @ payload"
    by (auto simp: framed_def)
  have "take 4 (drop 4 reply) = u32_to_be (length payload)" using reply ty by simp
  then have "unat (u32_from_be (take 4 (drop 4 reply))) + 8 = length reply"
    using u32_from_to_be [of "length payload"] lt reply ty by simp
  then have "usize_checked_add bits (unat (u32_from_be (take 4 (drop 4 reply)))) 8
      = Some (length reply)"
    by (simp only: checked_add_is [OF assms])
  moreover have "8 \<le> length reply" "take 2 reply = [35, 35]" using reply ty by simp_all
  ultimately show "\<not> malformed_reply bits reply" by (simp add: malformed_reply_def)
qed

text \<open>
  C21: a Trezor or KeepKey interpreter sees complete frames only. A reply is handed over exactly
  when it is two marks, a two-byte type, the big-endian length and that many payload bytes; any
  other fails as a device error before the interpreter is touched.
\<close>

theorem trezor_frames_gate:
  assumes "wf_session s" and "ses_kind s = KTrezor \<or> ses_kind s = KKeepKey"
    and "length reply < 2 ^ usize_bits F"
  shows "session_advance C F reply s d =
     (if framed reply then hand_over F reply s d
      else (s, d, Inl (Device ''malformed device protocol reply'')))"
  using assms framed_iff [OF assms(3)]
  by (auto simp: session_advance_hand_over wf_session_def)

theorem trezor_frames_gate_witness:
  "session_advance sample_crates sample_families [35, 35, 0, 2, 0, 0, 0, 1, 9]
      (sample_session (TrezorI None)) sample_devices =
     (if framed [35, 35, 0, 2, 0, 0, 0, 1, 9]
      then hand_over sample_families [35, 35, 0, 2, 0, 0, 0, 1, 9] (sample_session (TrezorI None))
        sample_devices
      else (sample_session (TrezorI None), sample_devices,
        Inl (Device ''malformed device protocol reply'')))"
  by (rule trezor_frames_gate)
    (simp_all add: wf_session_def sample_session_def sample_families_def)

lemma registration_mismatch_iff:
  assumes "length pid = 32"
    and "status_word_from C (u16_from_be (drop (length reply - 2) reply)) = Some (status_word_ok C)"
    and "2 \<le> length reply"
  shows "\<not> registration_mismatch C pid reply \<longleftrightarrow>
     (\<exists>hmac status. length hmac = 32 \<and> length status = 2 \<and> reply = pid @ hmac @ status)"
proof
  assume "\<not> registration_mismatch C pid reply"
  with assms have "length reply = 66" "take 32 reply = pid" by (auto simp: registration_mismatch_def)
  moreover have "reply = take 32 reply @ take 32 (drop 32 reply) @ drop 64 reply"
    using append_take_drop_id [of 32 reply] append_take_drop_id [of 32 "drop 32 reply"]
    by (simp del: append_take_drop_id)
  ultimately show "\<exists>hmac status. length hmac = 32 \<and> length status = 2 \<and> reply = pid @ hmac @ status"
    by (intro exI [of _ "take 32 (drop 32 reply)"] exI [of _ "drop 64 reply"]) auto
qed (use assms in \<open>auto simp: registration_mismatch_def\<close>)

text \<open>
  C22: a Ledger registration is bound to the policy it was asked for. While one runs, a reply
  with the success status reaches the interpreter exactly when it is the identity of that
  policy, 32 bytes of HMAC and the status; interrupted-execution replies pass unchanged.
\<close>

theorem registration_bound:
  assumes "wf_session s" and "ses_registration_id s = Some pid" and "length pid = 32"
    and "2 \<le> length reply"
    and "status_word_from C (u16_from_be (drop (length reply - 2) reply)) = st"
  shows "session_advance C F reply s d =
     (if st = Some (status_word_ok C)
         \<and> \<not> (\<exists>hmac status. length hmac = 32 \<and> length status = 2 \<and> reply = pid @ hmac @ status)
      then (s, d, Inl (Device ''invalid Ledger wallet registration response''))
      else hand_over F reply s d)"
proof (cases "st = Some (status_word_ok C)")
  case True
  then show ?thesis
    using registration_mismatch_iff [OF assms(3), of C reply] assms
    by (auto simp: session_advance_hand_over wf_session_def)
next
  case False
  then show ?thesis
    using assms by (auto simp: session_advance_hand_over wf_session_def registration_mismatch_def)
qed

theorem registration_bound_witness:
  "session_advance sample_crates sample_families [1, 144, 0]
      (sample_session (LedgerI None)\<lparr>ses_registration_id := Some (replicate 32 5)\<rparr>)
      sample_devices =
     (if Some 36864 = Some (status_word_ok sample_crates)
         \<and> \<not> (\<exists>hmac status. length hmac = 32 \<and> length status = 2
              \<and> [1, 144, 0 :: u8] = replicate 32 5 @ hmac @ status)
      then (sample_session (LedgerI None)\<lparr>ses_registration_id := Some (replicate 32 5)\<rparr>,
        sample_devices, Inl (Device ''invalid Ledger wallet registration response''))
      else hand_over sample_families [1, 144, 0]
        (sample_session (LedgerI None)\<lparr>ses_registration_id := Some (replicate 32 5)\<rparr>)
        sample_devices)"
  by (rule registration_bound)
    (simp_all add: wf_session_def sample_session_def sample_crates_def u16_from_be_def)

end
