(* ===== verification/Interp.thy ===== *)
theory Interp
  imports Session
begin

text \<open>
  \<open>Interp\<close> of \<open>interp.rs\<close>: a session behind a lock, its constructors per family, and its three
  calls \<open>start\<close>, \<open>exchange\<close> and \<open>end\<close>. A call takes the interpreter and the store of leased
  handles and returns both with its result. The theorems say what a failed call leaves behind,
  what a result stands for, and that a retired interpreter holds nothing.
\<close>

section \<open>Construction\<close>

type_synonym 'm interp = "'m session option mutex"

definition interp_build :: "'m inner \<Rightarrow> device_kind \<Rightarrow> state_lease \<Rightarrow> 'm interp" where
  "interp_build inner kind lease = new_mutex (Some
     \<lparr>ses_inner = inner, ses_lease = lease, ses_kind = kind, ses_started = False,
      ses_finished = False, ses_expect = ExpectAny, ses_prior_inputs = [],
      ses_prior_unsigned_tx = None, ses_registration_id = None\<rparr>)"

definition new_bitbox ::
    "('m, 'c, 'n, 'e) families \<Rightarrow> handle \<Rightarrow> network \<Rightarrow> ('n, 'e) device_state
     \<Rightarrow> ('n, 'e) device_state \<times> (hwi_error + 'm interp)" where
  "new_bitbox F noise network d = (case key_acquire (NoiseKey noise) d of
       None \<Rightarrow> (d, Inl (bad_state ''noise handle is already leased''))
     | Some d' \<Rightarrow>
         (d', Inr (interp_build (BitBoxI noise (bitbox_new F (network_to_core network))) KBitBox
           (LeaseNoise noise))))"

definition new_coldcard ::
    "('m, 'c, 'n, 'e) families \<Rightarrow> handle \<Rightarrow> ('n, 'e) device_state
     \<Rightarrow> ('n, 'e) device_state \<times> (hwi_error + 'm interp)" where
  "new_coldcard F encryption d = (case key_acquire (ColdcardKey encryption) d of
       None \<Rightarrow> (d, Inl (bad_state ''coldcard encryption is already leased''))
     | Some d' \<Rightarrow>
         (d', Inr (interp_build (ColdcardI encryption (coldcard_new F)) KColdcard
           (LeaseColdcard encryption))))"

definition new_jade :: "('m, 'c, 'n, 'e) families \<Rightarrow> network \<Rightarrow> 'm interp" where
  "new_jade F network = interp_build (JadeI (jade_new F (network_to_core network))) KJade LeaseNone"

definition new_ledger :: "('m, 'c, 'n, 'e) families \<Rightarrow> 'm interp" where
  "new_ledger F = interp_build (LedgerI (ledger_new F)) KLedger LeaseNone"

definition new_trezor ::
    "('m, 'c, 'n, 'e) families \<Rightarrow> network \<Rightarrow> passphrase_handle option \<Rightarrow> bool
     \<Rightarrow> hwi_error + 'm interp" where
  "new_trezor F network passphrase on_device_passphrase =
     and_then (require (\<not> (passphrase \<noteq> None \<and> on_device_passphrase))
       (invalid ''host and on-device passphrases are mutually exclusive'')) (\<lambda>_.
     and_then (transpose_result (map_option clone_passphrase passphrase)) (\<lambda>passphrase.
     Inr (interp_build
       (TrezorI (trezor_new F (network_to_core network) passphrase on_device_passphrase))
       KTrezor LeaseNone)))"

definition new_keepkey ::
    "('m, 'c, 'n, 'e) families \<Rightarrow> network \<Rightarrow> passphrase_handle option \<Rightarrow> hwi_error + 'm interp" where
  "new_keepkey F network passphrase =
     and_then (transpose_result (map_option clone_passphrase passphrase)) (\<lambda>passphrase.
     Inr (interp_build (KeepKeyI (keepkey_new F (network_to_core network) passphrase))
       KKeepKey LeaseNone))"

definition new_specter :: "('m, 'c, 'n, 'e) families \<Rightarrow> network \<Rightarrow> 'm interp" where
  "new_specter F network =
     interp_build (SpecterI (specter_new F (network_to_core network))) KSpecter LeaseNone"

section \<open>The calls\<close>

text \<open>
  \<open>with_session\<close>: dropping the session (\<open>*guard = None\<close>) drops its lease.
\<close>

definition with_session ::
    "('m session \<Rightarrow> ('n, 'e) device_state
       \<Rightarrow> 'm session \<times> ('n, 'e) device_state \<times> (hwi_error + 'r))
     \<Rightarrow> 'm interp \<Rightarrow> ('n, 'e) device_state
     \<Rightarrow> 'm interp \<times> ('n, 'e) device_state \<times> (hwi_error + 'r)" where
  "with_session f p d = (case lock p of
       None \<Rightarrow> (p, d, Inl (internal ''interpreter lock poisoned''))
     | Some None \<Rightarrow> (p, d, Inl (bad_state ''interpreter is finished''))
     | Some (Some session) \<Rightarrow> (case f session d of (s, d', out) \<Rightarrow>
         (case out of
            Inl error \<Rightarrow>
              (if ses_started s \<and> \<not> is_bad_state error
               then (p\<lparr>guarded := None\<rparr>, drop_lease (ses_lease s) d', out)
               else (p\<lparr>guarded := Some s\<rparr>, d', out))
          | Inr r \<Rightarrow> (p\<lparr>guarded := Some s\<rparr>, d', out))))"

definition start_session ::
    "crates \<Rightarrow> ('m, 'c, 'n, 'e) families \<Rightarrow> hwi_command \<Rightarrow> 'm session \<Rightarrow> ('n, 'e) device_state
     \<Rightarrow> 'm session \<times> ('n, 'e) device_state \<times> (hwi_error + transmit)" where
  "start_session C F cmd s d =
     (if ses_started s then (s, d, Inl (bad_state ''start was already called''))
      else (case plan C cmd (ses_kind s) of
              Inl e \<Rightarrow> (s, d, Inl e)
            | Inr p \<Rightarrow> session_start C F p s d))"

definition interp_start ::
    "crates \<Rightarrow> ('m, 'c, 'n, 'e) families \<Rightarrow> hwi_command \<Rightarrow> 'm interp \<Rightarrow> ('n, 'e) device_state
     \<Rightarrow> 'm interp \<times> ('n, 'e) device_state \<times> (hwi_error + transmit)" where
  "interp_start C F cmd = with_session (start_session C F cmd)"

definition exchange_session ::
    "crates \<Rightarrow> ('m, 'c, 'n, 'e) families \<Rightarrow> bytes \<Rightarrow> 'm session \<Rightarrow> ('n, 'e) device_state
     \<Rightarrow> 'm session \<times> ('n, 'e) device_state \<times> (hwi_error + transmit option)" where
  "exchange_session C F reply s d = (case require_running s of
       Inl e \<Rightarrow> (s, d, Inl e)
     | Inr _ \<Rightarrow> session_advance C F reply s d)"

definition interp_exchange ::
    "crates \<Rightarrow> ('m, 'c, 'n, 'e) families \<Rightarrow> bytes \<Rightarrow> 'm interp \<Rightarrow> ('n, 'e) device_state
     \<Rightarrow> 'm interp \<times> ('n, 'e) device_state \<times> (hwi_error + transmit option)" where
  "interp_exchange C F reply = with_session (exchange_session C F reply)"

text \<open>The response of the core on its way to the host, after the lease is gone.\<close>

definition end_response ::
    "crates \<Rightarrow> 'm session \<Rightarrow> core_error + core_response \<Rightarrow> hwi_error + hwi_response" where
  "end_response C s r =
     and_then (map_err (\<lambda>e. map_error e (ses_kind s)) r) (\<lambda>response.
     and_then (require (expect_matches (ses_expect s) response)
       (map_error CNoErrorOrResult (ses_kind s))) (\<lambda>_.
     and_then (case response of
         RespSignedPsbt p \<Rightarrow>
           check_signed_psbt C (ses_prior_inputs s) (ses_prior_unsigned_tx s) p
       | _ \<Rightarrow> Inr ()) (\<lambda>_.
     Inr (hwi_response_from C response))))"

text \<open>\<open>engine.ready(*key)\<close> through the lease still held.\<close>

definition install_key ::
    "('m, 'c, 'n, 'e) families \<Rightarrow> handle \<Rightarrow> bytes \<Rightarrow> ('n, 'e) device_state
     \<Rightarrow> ('n, 'e) device_state \<times> (hwi_error + unit)" where
  "install_key F encryption key d =
     (case on_coldcard encryption (\<lambda>e. ((), engine_ready F e key)) d of
        (_, d', r) \<Rightarrow> (d', map_err Device r))"

definition interp_end ::
    "crates \<Rightarrow> ('m, 'c, 'n, 'e) families \<Rightarrow> 'm interp \<Rightarrow> ('n, 'e) device_state
     \<Rightarrow> 'm interp \<times> ('n, 'e) device_state \<times> (hwi_error + hwi_response)" where
  "interp_end C F p d = (case lock p of
       None \<Rightarrow> (p, d, Inl (internal ''interpreter lock poisoned''))
     | Some None \<Rightarrow> (p, d, Inl (bad_state ''interpreter is finished''))
     | Some (Some s) \<Rightarrow>
         (let p' = p\<lparr>guarded := None\<rparr> in
          if \<not> ses_finished s
          then (p', drop_lease (ses_lease s) d,
                Inl (bad_state ''end called before the machine finished''))
          else (case inner_end F (ses_inner s) d of (d1, response) \<Rightarrow>
            (case (ses_lease s, response) of
               (LeaseColdcard encryption, Inr (RespEncryptionKey key)) \<Rightarrow>
                 (case install_key F encryption key d1 of (d2, r) \<Rightarrow>
                    (p', drop_lease (ses_lease s) d2, map_ok (\<lambda>_. HwiTaskDone) r))
             | _ \<Rightarrow> (p', drop_lease (ses_lease s) d1, end_response C s response)))))"

text \<open>Dropping the host's last reference drops the session with its lease.\<close>

definition interp_drop :: "'m interp \<Rightarrow> ('n, 'e) device_state \<Rightarrow> ('n, 'e) device_state" where
  "interp_drop p d = (case guarded p of None \<Rightarrow> d | Some s \<Rightarrow> drop_lease (ses_lease s) d)"

section \<open>One call of the object\<close>

datatype session_op = StartOp hwi_command | ExchangeOp bytes
datatype interp_op = Op session_op | EndOp
datatype interp_reply = Sent transmit | Advanced "transmit option" | Ended hwi_response

definition relabel :: "('r \<Rightarrow> 'q) \<Rightarrow> 's \<times> 'd \<times> ('f + 'r) \<Rightarrow> 's \<times> 'd \<times> ('f + 'q)" where
  "relabel f x = (case x of (s, d, r) \<Rightarrow> (s, d, map_ok f r))"

fun session_call ::
    "crates \<Rightarrow> ('m, 'c, 'n, 'e) families \<Rightarrow> session_op \<Rightarrow> 'm session \<Rightarrow> ('n, 'e) device_state
     \<Rightarrow> 'm session \<times> ('n, 'e) device_state \<times> (hwi_error + interp_reply)" where
  "session_call C F (StartOp cmd) s d = relabel Sent (start_session C F cmd s d)"
| "session_call C F (ExchangeOp reply) s d = relabel Advanced (exchange_session C F reply s d)"

fun interp_call ::
    "crates \<Rightarrow> ('m, 'c, 'n, 'e) families \<Rightarrow> interp_op \<Rightarrow> 'm interp \<Rightarrow> ('n, 'e) device_state
     \<Rightarrow> 'm interp \<times> ('n, 'e) device_state \<times> (hwi_error + interp_reply)" where
  "interp_call C F (Op (StartOp cmd)) p d = relabel Sent (interp_start C F cmd p d)"
| "interp_call C F (Op (ExchangeOp reply)) p d = relabel Advanced (interp_exchange C F reply p d)"
| "interp_call C F EndOp p d = relabel Ended (interp_end C F p d)"

lemma relabel_eq [result_simps]:
  "relabel f x = (s, d, out) \<longleftrightarrow> (\<exists>r. x = (s, d, r) \<and> map_ok f r = out)"
  by (cases x) (auto simp: relabel_def)

lemma relabel_with_session:
  "relabel f (with_session g p d) = with_session (\<lambda>s d. relabel f (g s d)) p d"
  by (auto simp: with_session_def relabel_def result_simps split: option.splits prod.splits sum.splits)

lemma interp_call_Op: "interp_call C F (Op op) p d = with_session (session_call C F op) p d"
  by (cases op) (simp_all add: interp_start_def interp_exchange_def relabel_with_session
      session_call.simps [abs_def])

text \<open>The live session of an interpreter, and how a dead one answers.\<close>

definition live_session :: "'m interp \<Rightarrow> 'm session option" where
  "live_session p = (if poisoned p then None else guarded p)"

definition dead_error :: "'m interp \<Rightarrow> hwi_error" where
  "dead_error p = (if poisoned p then internal ''interpreter lock poisoned''
     else bad_state ''interpreter is finished'')"

lemma live_session_eq: "live_session p = Some s \<longleftrightarrow> \<not> poisoned p \<and> guarded p = Some s"
  by (auto simp: live_session_def)

lemma live_session_of_build [simp]:
  "live_session (interp_build i k l) = Some \<lparr>ses_inner = i, ses_lease = l, ses_kind = k,
     ses_started = False, ses_finished = False, ses_expect = ExpectAny, ses_prior_inputs = [],
     ses_prior_unsigned_tx = None, ses_registration_id = None\<rparr>"
  by (simp add: live_session_def interp_build_def)

lemma dead_interp_call: "live_session p = None \<Longrightarrow> interp_call C F op p d = (p, d, Inl (dead_error p))"
  by (cases op) (auto simp: interp_call_Op with_session_def interp_end_def lock_def live_session_def
      dead_error_def relabel_def)

lemma with_session_live:
  assumes "live_session p = Some s" and "f s d = (s1, d1, out)"
  shows "with_session f p d =
    (if \<exists>e. out = Inl e \<and> ses_started s1 \<and> \<not> is_bad_state e
     then (p\<lparr>guarded := None\<rparr>, drop_lease (ses_lease s1) d1, out)
     else (p\<lparr>guarded := Some s1\<rparr>, d1, out))"
  using assms by (auto simp: with_session_def lock_def live_session_def split: sum.splits if_splits)

lemma install_key_frame: "agree_outside (LeaseColdcard h) d (fst (install_key F h key d))"
  using on_coldcard_frame [of h d "\<lambda>e. ((), engine_ready F e key)"]
  by (auto simp: install_key_def split: prod.splits)

text \<open>The session key an unlocked Coldcard yields to the engine its session leases.\<close>

fun session_key :: "state_lease \<Rightarrow> core_error + core_response \<Rightarrow> (handle \<times> bytes) option" where
  "session_key (LeaseColdcard h) (Inr (RespEncryptionKey key)) = Some (h, key)"
| "session_key l r = None"

lemma session_key_Some:
  "session_key l r = Some (h, key) \<longleftrightarrow> l = LeaseColdcard h \<and> r = Inr (RespEncryptionKey key)"
  by (cases "(l, r)" rule: session_key.cases) auto

lemma interp_end_unfinished:
  "live_session p = Some s \<Longrightarrow> \<not> ses_finished s \<Longrightarrow> interp_end C F p d =
     (p\<lparr>guarded := None\<rparr>, drop_lease (ses_lease s) d,
      Inl (bad_state ''end called before the machine finished''))"
  by (simp add: interp_end_def lock_def live_session_eq)

lemma interp_end_finished:
  assumes "live_session p = Some s" and "ses_finished s"
    and "inner_end F (ses_inner s) d = (d1, response)"
  shows "interp_end C F p d = (case session_key (ses_lease s) response of
      None \<Rightarrow> (p\<lparr>guarded := None\<rparr>, drop_lease (ses_lease s) d1, end_response C s response)
    | Some (h, key) \<Rightarrow>
        (case install_key F h key d1 of (d2, r) \<Rightarrow>
           (p\<lparr>guarded := None\<rparr>, drop_lease (ses_lease s) d2, map_ok (\<lambda>_. HwiTaskDone) r)))"
  using assms
  by (cases "(ses_lease s, response)" rule: session_key.cases)
    (simp_all add: interp_end_def lock_def live_session_eq Let_def split: state_lease.splits)

lemma interp_end_live:
  assumes live: "live_session p = Some s" and wf: "wf_session s"
  shows "\<exists>d1 r. interp_end C F p d = (p\<lparr>guarded := None\<rparr>, drop_lease (ses_lease s) d1, r)
    \<and> agree_outside (ses_lease s) d d1"
proof (cases "ses_finished s")
  case False
  then show ?thesis using interp_end_unfinished [OF live] agree_outside_refl by blast
next
  case True
  obtain d1 response where r: "inner_end F (ses_inner s) d = (d1, response)" by fastforce
  have frame: "agree_outside (ses_lease s) d d1"
    using inner_end_frame [of "ses_inner s" d F] r wf by (simp add: wf_session_def)
  note fin = interp_end_finished [OF live True r]
  show ?thesis
  proof (cases "session_key (ses_lease s) response")
    case None
    with fin frame show ?thesis by auto
  next
    case (Some k)
    then obtain h key where k: "k = (h, key)" "ses_lease s = LeaseColdcard h"
      using session_key_Some [of "ses_lease s" response] by (cases k) auto
    obtain d2 r2 where i: "install_key F h key d1 = (d2, r2)" by fastforce
    have "agree_outside (ses_lease s) d d2"
      using agree_outside_trans [OF frame] install_key_frame [of h d1 F key] i k by simp
    with fin Some k i show ?thesis by auto
  qed
qed

section \<open>Facts about the calls on a session\<close>

lemma session_call_keeps:
  assumes "session_call C F op s d = (s', d', r)"
  shows "agree_outside (inner_ref (ses_inner s)) d d' \<and> ses_lease s' = ses_lease s
    \<and> ses_kind s' = ses_kind s \<and> inner_ref (ses_inner s') = inner_ref (ses_inner s)
    \<and> inner_kind (ses_inner s') = inner_kind (ses_inner s)
    \<and> (ses_started s \<longrightarrow> ses_started s')"
  using assms
  by (cases op) (auto simp: result_simps start_session_def exchange_session_def agree_outside_refl
      dest: session_start_keeps session_advance_keeps split: if_splits sum.splits)

lemma require_running_eq [result_simps]:
  "require_running s = Inr u \<longleftrightarrow> ses_started s \<and> \<not> ses_finished s"
  by (auto simp: require_running_def)

lemma require_running_error: "require_running s = Inl e \<Longrightarrow> is_bad_state e"
  by (auto simp: require_running_def split: if_splits)

lemma session_call_wf:
  "session_call C F op s d = (s', d', r) \<Longrightarrow> wf_session s \<Longrightarrow> wf_session s'"
  by (cases op) (auto simp: result_simps start_session_def exchange_session_def
      dest: session_start_wf session_advance_wf split: if_splits sum.splits)

lemma session_call_error:
  assumes "session_call C F op s d = (s', d', Inl e)"
  shows "s' = s \<and> d' = d \<and> (is_bad_state e \<or> \<not> ses_started s) \<or> ses_started s' \<and> \<not> is_bad_state e"
proof (cases op)
  case (StartOp cmd)
  with assms show ?thesis
    by (auto simp: result_simps start_session_def split: if_splits sum.splits
        dest: session_start_preflight session_start_not_bad_state)
next
  case (ExchangeOp reply)
  show ?thesis
  proof (cases "require_running s")
    case (Inl e')
    with ExchangeOp assms show ?thesis
      by (auto simp: result_simps exchange_session_def dest: require_running_error)
  next
    case (Inr u)
    with ExchangeOp assms show ?thesis
      by (auto simp: result_simps exchange_session_def
          dest: session_advance_keeps session_advance_not_bad_state)
  qed
qed

section \<open>The interpreter as the owner of a lease\<close>

definition interp_key :: "'m interp \<Rightarrow> lease_key option" where
  "interp_key p = Option.bind (guarded p) (\<lambda>s. lease_key_of (ses_lease s))"

definition wf_interp :: "'m interp \<Rightarrow> bool" where
  "wf_interp p \<longleftrightarrow> (\<forall>s. guarded p = Some s \<longrightarrow> wf_session s)"

lemma drop_lease_key:
  "drop_lease l d = (case lease_key_of l of None \<Rightarrow> d | Some k \<Rightarrow> key_release k d)"
  by (cases l) simp_all

lemma interp_drop_key:
  "interp_drop p d = (case interp_key p of None \<Rightarrow> d | Some k \<Rightarrow> key_release k d)"
  by (simp add: interp_drop_def interp_key_def drop_lease_key split: option.splits)

lemma wf_interp_live: "wf_interp p \<Longrightarrow> live_session p = Some s \<Longrightarrow> wf_session s"
  by (simp add: wf_interp_def live_session_eq)

lemma wf_interp_build: "wf_interp (interp_build i k l) \<longleftrightarrow> l = inner_ref i \<and> k = inner_kind i"
  by (simp add: wf_interp_def wf_session_def interp_build_def)

lemma interp_key_build [simp]: "interp_key (interp_build i k l) = lease_key_of l"
  by (simp add: interp_key_def interp_build_def)

lemma agree_outside_held: "agree_outside l d d' \<Longrightarrow> key_held k d' = key_held k d"
  by (simp add: agree_outside_def)

text \<open>A call on a live session, in one equation per way it can go.\<close>

lemma op_call_live:
  assumes "live_session p = Some s" and "session_call C F op s d = (s1, d1, out)"
  shows "interp_call C F (Op op) p d =
    (if \<exists>e. out = Inl e \<and> ses_started s1 \<and> \<not> is_bad_state e
     then (p\<lparr>guarded := None\<rparr>, drop_lease (ses_lease s) d1, out)
     else (p\<lparr>guarded := Some s1\<rparr>, d1, out))"
proof -
  have "ses_lease s1 = ses_lease s" using session_call_keeps [OF assms(2)] by simp
  with with_session_live [of p s "session_call C F op" d s1 d1 out, OF assms]
  show ?thesis by (simp only: interp_call_Op)
qed

lemma interp_call_wf:
  assumes "wf_interp p" and "interp_call C F op p d = (p', d', r)"
  shows "wf_interp p'"
proof (cases "live_session p")
  case None
  with assms show ?thesis by (simp add: dead_interp_call)
next
  case (Some s)
  have wf: "wf_session s" using assms(1) Some by (rule wf_interp_live)
  show ?thesis
  proof (cases op)
    case (Op sop)
    obtain s1 d1 out where c: "session_call C F sop s d = (s1, d1, out)" by (cases "session_call C F sop s d")
    show ?thesis
      using assms(2) session_call_wf [OF c wf]
      by (auto simp: Op op_call_live [OF Some c] wf_interp_def split: if_splits)
  next
    case EndOp
    with assms(2) interp_end_live [OF Some wf, of C F d] show ?thesis
      by (auto simp: wf_interp_def result_simps)
  qed
qed

lemma interp_call_lease:
  assumes "wf_interp p" and "interp_call C F op p d = (p', d', r)"
  shows "\<exists>t. (\<forall>k. key_held k t = key_held k d)
    \<and> (interp_key p' = interp_key p \<and> d' = t
       \<or> interp_key p' = None
          \<and> d' = (case interp_key p of None \<Rightarrow> t | Some k \<Rightarrow> key_release k t))"
proof (cases "live_session p")
  case None
  with assms show ?thesis by (intro exI [of _ d]) (simp add: dead_interp_call)
next
  case (Some s)
  then have g: "guarded p = Some s" by (simp add: live_session_eq)
  have wf: "wf_session s" using assms(1) Some by (rule wf_interp_live)
  show ?thesis
  proof (cases op)
    case (Op sop)
    obtain s1 d1 out where c: "session_call C F sop s d = (s1, d1, out)" by (cases "session_call C F sop s d")
    note keeps = session_call_keeps [OF c]
    then have held: "\<forall>k. key_held k d1 = key_held k d" by (auto dest: agree_outside_held)
    show ?thesis
      using assms(2) held keeps g
      by (intro exI [of _ d1])
        (auto simp: Op op_call_live [OF Some c] interp_key_def drop_lease_key split: if_splits)
  next
    case EndOp
    from interp_end_live [OF Some wf, of C F d] obtain d1 r1
      where e: "interp_end C F p d = (p\<lparr>guarded := None\<rparr>, drop_lease (ses_lease s) d1, r1)"
        and held: "agree_outside (ses_lease s) d d1" by blast
    from assms(2) e g agree_outside_held [OF held] show ?thesis
      by (intro exI [of _ d1]) (auto simp: EndOp result_simps interp_key_def drop_lease_key)
  qed
qed

interpretation client: lease_client key_acquire key_release key_held
    interp_key "interp_call C F" wf_interp
  for C and F :: "('m, 'c, 'n, 'e) families"
  by unfold_locales (rule interp_call_wf interp_call_lease; assumption)+

text \<open>
  C12: a failed \<open>start\<close> or \<open>exchange\<close> either changes nothing at all, neither the interpreter nor any
  handle, so that the caller may try again; or it retires the interpreter and releases its
  lease, and then it is not a \<open>BadState\<close>. There is no third outcome.
\<close>

theorem failed_call_keeps_or_retires:
  assumes wf: "wf_interp p" and call: "interp_call C F (Op op) p d = (p', d', Inl e)"
  shows "p' = p \<and> d' = d
    \<or> \<not> is_bad_state e \<and> live_session p' = None \<and> interp_key p' = None
       \<and> (\<forall>k. interp_key p = Some k \<longrightarrow> \<not> key_held k d')"
proof (cases "live_session p")
  case None
  with call show ?thesis by (simp add: dead_interp_call)
next
  case (Some s)
  then have g: "guarded p = Some s" "p\<lparr>guarded := Some s\<rparr> = p" by (simp_all add: live_session_eq)
  obtain s1 d1 out where c: "session_call C F op s d = (s1, d1, out)" by (cases "session_call C F op s d")
  note eq = op_call_live [OF Some c]
  from call eq have out: "out = Inl e" by (simp split: if_splits)
  show ?thesis
  proof (cases "ses_started s1 \<and> \<not> is_bad_state e")
    case True
    with call eq out have "interp_key p' = None" "live_session p' = None"
      by (auto simp: interp_key_def live_session_def)
    with True client.call_releases [OF wf call] show ?thesis by simp
  next
    case False
    with session_call_error [OF c [unfolded out]] call eq out g show ?thesis by auto
  qed
qed

definition sample_interp :: "core_command option inner \<Rightarrow> core_command option interp" where
  "sample_interp i = new_mutex (Some (sample_session i))"

lemma sample_interp_wf: "wf_interp (sample_interp i)"
  by (simp add: wf_interp_def sample_interp_def wf_session_def sample_session_def)

definition sample_failed_call where
  "sample_failed_call = interp_call sample_crates sample_families (Op (ExchangeOp []))
     (sample_interp (BitBoxI 0 None)) sample_devices"

theorem failed_call_keeps_or_retires_witness:
  "fst sample_failed_call = sample_interp (BitBoxI 0 None)
     \<and> fst (snd sample_failed_call) = sample_devices
   \<or> \<not> is_bad_state (Device ''BitBox: protocol serialization failed'')
     \<and> live_session (fst sample_failed_call) = None \<and> interp_key (fst sample_failed_call) = None
     \<and> (\<forall>k. interp_key (sample_interp (BitBoxI 0 None)) = Some k
          \<longrightarrow> \<not> key_held k (fst (snd sample_failed_call)))"
proof (rule failed_call_keeps_or_retires [OF sample_interp_wf])
  have "snd (snd sample_failed_call) = Inl (Device ''BitBox: protocol serialization failed'')"
    by (simp add: sample_failed_call_def interp_exchange_def with_session_def sample_interp_def
        lock_def exchange_session_def require_running_def sample_session_def session_advance_def
        on_noise_def Let_def sample_families_def sample_machine_def wrap_inner_def relabel_def)
  then show "interp_call sample_crates sample_families (Op (ExchangeOp []))
      (sample_interp (BitBoxI 0 None)) sample_devices =
    (fst sample_failed_call, fst (snd sample_failed_call),
     Inl (Device ''BitBox: protocol serialization failed''))"
    unfolding sample_failed_call_def by (metis prod.collapse)
qed

text \<open>
  C13: what \<open>end\<close> does to the session and its lease, on every path. Behind a poisoned lock it
  does nothing: it fails with an \<open>Internal\<close>, and a session that a panic left behind keeps its
  lease until the object is dropped. On a consumed interpreter it fails with a \<open>BadState\<close>. Otherwise,
  before the command is finished, on a device error, on a refused response and on success, the
  session is gone, its lease is released, and a result needs a finished command. No other lease
  changes in any case, and once the object is dropped too its lease is free.
\<close>

theorem end_frees_unless_poisoned:
  assumes wf: "wf_interp p" and call: "interp_call C F EndOp p d = (p', d', r)"
  shows "(case live_session p of
      None \<Rightarrow> p' = p \<and> d' = d
        \<and> r = Inl (if poisoned p then Internal ''interpreter lock poisoned''
                   else BadState ''interpreter is finished'')
    | Some s \<Rightarrow> live_session p' = None \<and> interp_key p' = None
        \<and> (\<forall>k. interp_key p = Some k \<longrightarrow> \<not> key_held k d')
        \<and> (is_ok r \<longrightarrow> ses_finished s)
        \<and> (\<not> ses_finished s \<longrightarrow> r = Inl (BadState ''end called before the machine finished'')))
    \<and> (\<forall>k. interp_key p \<noteq> Some k \<longrightarrow> key_held k d' = key_held k d)
    \<and> (\<forall>k. interp_key p = Some k \<longrightarrow> \<not> key_held k (interp_drop p' d'))"
proof (cases "live_session p")
  case None
  with call show ?thesis
    by (auto simp: dead_interp_call dead_error_def internal_def bad_state_def interp_drop_key
        leases.kheld_after_rel simp del: interp_call.simps)
next
  case (Some s)
  note live = this
  have wfs: "wf_session s" using wf live by (rule wf_interp_live)
  have "p' = p\<lparr>guarded := None\<rparr>"
    using interp_end_live [OF live wfs, of C F d] call by (auto simp: result_simps)
  then have gone: "live_session p' = None" "interp_key p' = None"
    by (simp_all add: live_session_def interp_key_def)
  have "\<not> ses_finished s \<Longrightarrow> r = Inl (BadState ''end called before the machine finished'')"
    using call interp_end_unfinished [OF live, of C F d] by (auto simp: result_simps bad_state_def)
  moreover have "interp_drop p' d' = d'" using gone(2) by (simp add: interp_drop_key)
  ultimately show ?thesis
    using live gone client.call_releases [OF wf call] client.call_other [OF wf call] by fastforce
qed

definition sample_end_call where
  "sample_end_call = interp_call sample_crates sample_families EndOp
     (sample_interp (ColdcardI 2 None)) sample_devices"

theorem end_frees_unless_poisoned_witness:
  "live_session (fst sample_end_call) = None
    \<and> \<not> key_held (ColdcardKey 2) (fst (snd sample_end_call))
    \<and> key_held (NoiseKey 2) (fst (snd sample_end_call)) = key_held (NoiseKey 2) sample_devices
    \<and> snd (snd sample_end_call) = Inl (BadState ''end called before the machine finished'')"
proof -
  have live: "live_session (sample_interp (ColdcardI 2 None)) = Some (sample_session (ColdcardI 2 None))"
    by (simp add: live_session_def sample_interp_def)
  have call: "interp_call sample_crates sample_families EndOp (sample_interp (ColdcardI 2 None))
      sample_devices = (fst sample_end_call, fst (snd sample_end_call), snd (snd sample_end_call))"
    by (simp add: sample_end_call_def)
  have "interp_key (sample_interp (ColdcardI 2 None)) = Some (ColdcardKey 2)"
    "\<not> ses_finished (sample_session (ColdcardI 2 None))"
    by (simp_all add: interp_key_def sample_interp_def sample_session_def)
  with end_frees_unless_poisoned [OF sample_interp_wf call] live show ?thesis
    by (simp del: key_held.simps)
qed

section \<open>Sequences of calls\<close>

definition interp_calls ::
    "crates \<Rightarrow> ('m, 'c, 'n, 'e) families \<Rightarrow> interp_op \<Rightarrow> 'm interp \<times> ('n, 'e) device_state
     \<Rightarrow> ('m interp \<times> ('n, 'e) device_state) \<times> (hwi_error + interp_reply)" where
  "interp_calls C F op st =
     (case interp_call C F op (fst st) (snd st) of (p, d, r) \<Rightarrow> ((p, d), r))"

lemma interp_calls_eq [result_simps]:
  "interp_calls C F op st = (st', r) \<longleftrightarrow> interp_call C F op (fst st) (snd st) = (fst st', snd st', r)"
  by (cases st') (auto simp: interp_calls_def split: prod.splits)

lemma interp_calls_sel:
  "fst (fst (interp_calls C F op st)) = fst (interp_call C F op (fst st) (snd st))"
  "snd (interp_calls C F op st) = snd (snd (interp_call C F op (fst st) (snd st)))"
  by (simp_all add: interp_calls_def split: prod.splits)

definition is_sent :: "hwi_error + interp_reply \<Rightarrow> bool" where
  "is_sent r = (case r of Inr (Sent t) \<Rightarrow> True | _ \<Rightarrow> False)"

definition is_ended :: "hwi_error + interp_reply \<Rightarrow> bool" where
  "is_ended r = (case r of Inr (Ended x) \<Rightarrow> True | _ \<Rightarrow> False)"

definition startable :: "'m interp \<Rightarrow> bool" where
  "startable p \<longleftrightarrow> (\<exists>s. live_session p = Some s \<and> \<not> ses_started s)"

lemma reply_kinds:
  "is_sent r \<longleftrightarrow> (\<exists>t. r = Inr (Sent t))" "is_ended r \<longleftrightarrow> (\<exists>x. r = Inr (Ended x))"
  by (auto simp: is_sent_def is_ended_def split: sum.splits interp_reply.splits)

lemma end_retires: "interp_call C F EndOp p d = (p', d', r) \<Longrightarrow> live_session p' = None"
  by (auto simp: interp_end_def live_session_def lock_def Let_def result_simps
      split: if_splits option.splits prod.splits state_lease.splits sum.splits core_response.splits)

lemma end_poison: "interp_call C F EndOp p d = (p', d', r) \<Longrightarrow> poisoned p' = poisoned p"
  by (auto simp: interp_end_def lock_def Let_def result_simps
      split: if_splits option.splits prod.splits state_lease.splits sum.splits core_response.splits)

lemma op_not_ended: "interp_call C F (Op op) p d = (p', d', r) \<Longrightarrow> \<not> is_ended r"
  by (cases op; cases "snd (snd (interp_call C F (Op op) p d))")
    (auto simp: reply_kinds result_simps)

lemma end_not_sent: "interp_call C F EndOp p d = (p', d', r) \<Longrightarrow> \<not> is_sent r"
  by (auto simp: reply_kinds result_simps)

text \<open>A retired interpreter; and one whose single start is behind it.\<close>

interpretation lifetime: one_shot "interp_calls C F" "\<lambda>st. live_session (fst st) \<noteq> None"
    "\<lambda>st. dead_error (fst st)" "\<lambda>op r. is_ended r"
  for C and F :: "('m, 'c, 'n, 'e) families"
proof
  fix op and st :: "'m interp \<times> ('n, 'e) device_state"
  show "\<not> live_session (fst st) \<noteq> None \<Longrightarrow> interp_calls C F op st = (st, Inl (dead_error (fst st)))"
    by (simp add: result_simps dead_interp_call)
  show "\<not> is_ended (Inl (dead_error (fst st)))" by (simp add: is_ended_def)
  obtain p' d' r where c: "interp_call C F op (fst st) (snd st) = (p', d', r)"
    by (cases "interp_call C F op (fst st) (snd st)")
  show "is_ended (snd (interp_calls C F op st)) \<Longrightarrow>
      \<not> live_session (fst (fst (interp_calls C F op st))) \<noteq> None"
    using c end_retires op_not_ended by (cases op) (simp_all only: interp_calls_sel, fastforce+)
qed

lemma session_call_sent:
  assumes "session_call C F op s d = (s', d', r)"
  shows "(ses_started s \<longrightarrow> \<not> is_sent r) \<and> (is_sent r \<longrightarrow> ses_started s')"
  using assms by (cases op) (auto simp: result_simps reply_kinds start_session_def
      dest: session_start_ok split: if_splits sum.splits)

lemma started_call:
  assumes call: "interp_call C F op p d = (p', d', r)"
  shows "(\<not> startable p \<longrightarrow> \<not> startable p' \<and> \<not> is_sent r) \<and> (is_sent r \<longrightarrow> \<not> startable p')"
proof (cases "live_session p")
  case None
  with call show ?thesis by (auto simp: dead_interp_call reply_kinds)
next
  case (Some s)
  show ?thesis
  proof (cases op)
    case (Op sop)
    obtain s1 d1 out where c: "session_call C F sop s d = (s1, d1, out)"
      by (cases "session_call C F sop s d")
    have "r = out" "live_session p' = None \<or> live_session p' = Some s1"
      using call Some by (auto simp: Op op_call_live [OF Some c] live_session_def split: if_splits)
    with session_call_sent [OF c] session_call_keeps [OF c] Some show ?thesis
      by (auto simp: startable_def)
  next
    case EndOp
    with end_retires [of C F p d p' d' r] end_not_sent [of C F p d p' d' r] call show ?thesis
      by (simp add: startable_def)
  qed
qed

interpretation first_start: at_most_once "interp_calls C F" "\<lambda>op r. is_sent r"
    "\<lambda>st. \<not> startable (fst st)"
  for C and F :: "('m, 'c, 'n, 'e) families"
proof
  fix op and st :: "'m interp \<times> ('n, 'e) device_state"
  obtain p' d' r where c: "interp_call C F op (fst st) (snd st) = (p', d', r)"
    by (cases "interp_call C F op (fst st) (snd st)")
  note step = started_call [OF c]
  show "is_sent (snd (interp_calls C F op st)) \<Longrightarrow>
      \<not> startable (fst (fst (interp_calls C F op st)))"
    using c step by (simp add: interp_calls_sel)
  show "\<not> startable (fst st) \<Longrightarrow> \<not> startable (fst (fst (interp_calls C F op st)))"
    using c step by (simp add: interp_calls_sel)
  show "\<not> startable (fst st) \<Longrightarrow> \<not> is_sent (snd (interp_calls C F op st))"
    using c step by (simp add: interp_calls_sel)
qed

text \<open>
  C14: the protocol of an interpreter, over every sequence of calls in any order and with any
  replies: at most one \<open>start\<close> succeeds, at most one \<open>end\<close> returns a result, and whatever
  \<open>end\<close> returned, every later call fails with the same error, a \<open>BadState\<close> unless the lock was
  poisoned, and the interpreter and the device state stay as \<open>end\<close> left them.
\<close>

theorem interp_protocol:
  "length (filter is_sent (snd (run_calls (interp_calls C F) ops st))) \<le> 1
   \<and> length (filter is_ended (snd (run_calls (interp_calls C F) ops st))) \<le> 1
   \<and> (\<exists>st' r. interp_calls C F EndOp st = (st', r)
      \<and> run_calls (interp_calls C F) (EndOp # ops) st =
        (st', r # replicate (length ops)
           (Inl (if poisoned (fst st) then Internal ''interpreter lock poisoned''
                 else BadState ''interpreter is finished''))))"
proof (intro conjI)
  let ?run = "run_calls (interp_calls C F)"
  show "length (filter is_sent (snd (?run ops st))) \<le> 1"
    using first_start.at_most_one_win [of ops C F st]
      length_filter_zip_snd [of ops "snd (?run ops st)" is_sent] by (simp add: length_run_calls)
  show "length (filter is_ended (snd (?run ops st))) \<le> 1"
    using lifetime.at_most_one_win [of ops C F st]
      length_filter_zip_snd [of ops "snd (?run ops st)" is_ended] by (simp add: length_run_calls)
  obtain st' r where c: "interp_calls C F EndOp st = (st', r)" by fastforce
  then have call: "interp_call C F EndOp (fst st) (snd st) = (fst st', snd st', r)"
    by (simp only: interp_calls_eq)
  have "dead_error (fst st') = (if poisoned (fst st) then Internal ''interpreter lock poisoned''
      else BadState ''interpreter is finished'')"
    using end_poison [OF call] by (simp add: dead_error_def internal_def bad_state_def)
  then show "\<exists>st' r. interp_calls C F EndOp st = (st', r) \<and> ?run (EndOp # ops) st = (st', r # replicate (length ops)
           (Inl (if poisoned (fst st) then Internal ''interpreter lock poisoned''
                 else BadState ''interpreter is finished'')))"
    using lifetime.dead_run [of st' C F ops] end_retires [OF call] c by simp
qed

section \<open>What a result stands for\<close>

text \<open>The command a session was started with, read off the session.\<close>

definition started_with :: "crates \<Rightarrow> hwi_command \<Rightarrow> 'm session \<Rightarrow> bool" where
  "started_with C cmd s \<longleftrightarrow> ses_started s
     \<and> (\<exists>pl. plan C cmd (ses_kind s) = Inr pl \<and> ses_expect s = plan_expect pl
          \<and> (ses_prior_inputs s, ses_prior_unsigned_tx s) = prior_of_command C (plan_command pl))"

lemma session_call_started:
  assumes "session_call C F op s d = (s', d', r)" and "ses_started s'"
    and "\<not> (\<exists>e. r = Inl e \<and> \<not> is_bad_state e)"
  shows "(\<forall>cmd. started_with C cmd s \<longrightarrow> started_with C cmd s') \<and> ses_started s
    \<or> (\<exists>cmd t. op = StartOp cmd \<and> r = Inr (Sent t) \<and> started_with C cmd s')"
proof (cases op)
  case (StartOp cmd)
  show ?thesis
  proof (cases r)
    case (Inl e)
    with assms session_call_error [of C F op s d s' d' e] show ?thesis by auto
  next
    case (Inr x)
    with assms(1) StartOp obtain pl t where p: "plan C cmd (ses_kind s) = Inr pl"
      and st: "session_start C F pl s d = (s', d', Inr t)" and r: "r = Inr (Sent t)"
      by (auto simp: result_simps start_session_def split: if_splits sum.splits)
    have "started_with C cmd s'"
      using session_start_ok [OF st] session_start_keeps [OF st] p by (simp add: started_with_def)
    with StartOp r show ?thesis by blast
  qed
next
  case (ExchangeOp reply)
  with assms show ?thesis
    by (auto simp: result_simps exchange_session_def started_with_def
        dest!: session_advance_keeps split: sum.splits)
qed

lemma call_stays_live:
  assumes call: "interp_call C F op p d = (p', d', r)" and live': "live_session p' = Some s'"
  shows "\<exists>sop s. op = Op sop \<and> live_session p = Some s \<and> session_call C F sop s d = (s', d', r)
    \<and> \<not> (\<exists>e. r = Inl e \<and> ses_started s' \<and> \<not> is_bad_state e)"
proof -
  obtain s where live: "live_session p = Some s"
    using call live' dead_interp_call [of p C F op d] by (cases "live_session p") auto
  obtain sop where op: "op = Op sop"
    using call live' end_retires [of C F p d p' d' r] by (cases op) auto
  obtain s1 d1 out where c: "session_call C F sop s d = (s1, d1, out)"
    by (cases "session_call C F sop s d")
  have "live_session (p\<lparr>guarded := Some s1\<rparr>) = Some s1" "live_session (p\<lparr>guarded := None\<rparr>) = None"
    using live by (auto simp: live_session_def split: if_splits)
  with op_call_live [OF live c] call live' c live show ?thesis
    unfolding op by (auto split: if_splits)
qed

lemma end_result:
  assumes "live_session p = Some s" and "interp_end C F p d = (p', d', Inr resp)"
  shows "ses_finished s \<and> ((\<exists>response. end_response C s (Inr response) = Inr resp)
    \<or> (\<exists>h key. ses_lease s = LeaseColdcard h \<and> snd (inner_end F (ses_inner s) d) = Inr (RespEncryptionKey key))
      \<and> resp = HwiTaskDone)"
proof -
  have fin: "ses_finished s"
    using assms interp_end_unfinished [OF assms(1), of C F d] by (cases "ses_finished s") auto
  obtain d1 response where r: "inner_end F (ses_inner s) d = (d1, response)" by fastforce
  show ?thesis
  proof (cases "session_key (ses_lease s) response")
    case None
    with interp_end_finished [OF assms(1) fin r, of C] assms(2)
    have "end_response C s response = Inr resp" by simp
    then show ?thesis using fin by (cases response) (auto simp: end_response_def)
  next
    case (Some k)
    then obtain h key where k: "k = (h, key)" "ses_lease s = LeaseColdcard h"
      by (cases k) (simp add: session_key_Some)
    obtain d2 r2 where "install_key F h key d1 = (d2, r2)" by fastforce
    with interp_end_finished [OF assms(1) fin r, of C] assms(2) Some k
    have "map_ok (\<lambda>_. HwiTaskDone) r2 = Inr resp" by simp
    moreover have "snd (inner_end F (ses_inner s) d) = Inr (RespEncryptionKey key)"
      using Some k by (simp add: r session_key_Some)
    ultimately show ?thesis using fin k by (auto simp: result_simps)
  qed
qed

text \<open>A Coldcard that yields a session key ends any command with its task done, whatever the
  command expected.\<close>

lemma session_key_answers_anything:
  assumes "live_session p = Some s" and "ses_finished s" and "ses_lease s = LeaseColdcard h"
    and "inner_end F (ses_inner s) d = (d1, Inr (RespEncryptionKey key))"
    and "install_key F h key d1 = (d2, Inr ())"
  shows "interp_end C F p d
    = (p\<lparr>guarded := None\<rparr>, key_release (ColdcardKey h) d2, Inr HwiTaskDone)"
  using interp_end_finished [OF assms(1, 2, 4), of C] assms(3, 5) by simp

lemma end_response_ok:
  "end_response C s (Inr response) = Inr resp \<longleftrightarrow>
     expect_matches (ses_expect s) response
     \<and> (\<forall>q. response = RespSignedPsbt q \<longrightarrow>
          check_signed_psbt C (ses_prior_inputs s) (ses_prior_unsigned_tx s) q = Inr ())
     \<and> resp = hwi_response_from C response"
  by (auto simp: end_response_def result_simps split: core_response.splits)

lemma plan_sign_only:
  "plan C cmd kind = Inr pl \<Longrightarrow> plan_command pl = CmdSignTx q ctx \<Longrightarrow>
     \<exists>text pol. cmd = SignPsbt text pol \<and> decode_psbt C text = Inr q"
  by (cases cmd) (auto simp: plan_defs result_simps Let_def split: if_splits option.splits)

lemma prior_some: "prior_of_command C c = (is, Some w) \<Longrightarrow> \<exists>q ctx. c = CmdSignTx q ctx"
  by (cases c) (auto simp: prior_of_command_def)

lemma signed_response:
  "hwi_response_from C response = HwiSignedPsbt text \<Longrightarrow>
     \<exists>q. response = RespSignedPsbt q \<and> text = encode_psbt C q"
  by (cases response) auto

text \<open>
  A session that ends in a signed PSBT was started with a \<open>SignPsbt\<close> command, and the PSBT is
  faithful to the one that command carried.
\<close>

lemma signed_session:
  assumes "sighash_ok C" and st: "started_with C cmd s"
    and resp: "end_response C s (Inr response) = Inr (HwiSignedPsbt text)"
  shows "\<exists>input pol request result. cmd = SignPsbt input pol \<and> decode_psbt C input = Inr request
    \<and> text = encode_psbt C result \<and> signing_faithful C request result"
proof -
  from resp obtain result where result: "response = RespSignedPsbt result" "text = encode_psbt C result"
    and check: "check_signed_psbt C (ses_prior_inputs s) (ses_prior_unsigned_tx s) result = Inr ()"
    by (auto simp: end_response_ok dest!: signed_response [OF sym])
  from st obtain pl where pl: "plan C cmd (ses_kind s) = Inr pl"
    and prior: "(ses_prior_inputs s, ses_prior_unsigned_tx s) = prior_of_command C (plan_command pl)"
    by (auto simp: started_with_def)
  from check obtain w where "ses_prior_unsigned_tx s = Some w"
    by (auto simp: check_signed_psbt_iff)
  with prior obtain request ctx where q: "plan_command pl = CmdSignTx request ctx"
    using prior_some [of C "plan_command pl"] by metis
  then obtain input pol where "cmd = SignPsbt input pol" "decode_psbt C input = Inr request"
    using plan_sign_only [OF pl] by blast
  moreover have "signing_faithful C request result"
    using check_prior_iff [OF assms(1), of request ctx result] check prior q
    by (metis fst_conv snd_conv)
  ultimately show ?thesis using result by blast
qed

lemma signed_end:
  assumes "sighash_ok C" and "live_session p = Some s" and "started_with C cmd s"
    and "interp_end C F p d = (p', d', Inr (HwiSignedPsbt text))"
  shows "\<exists>input pol request result. cmd = SignPsbt input pol \<and> decode_psbt C input = Inr request
    \<and> text = encode_psbt C result \<and> signing_faithful C request result"
  using end_result [OF assms(2, 4)] signed_session [OF assms(1, 3)] by auto

text \<open>A complete run: a Jade signs the sample PSBT.\<close>

definition sample_fresh :: "core_command option session" where
  "sample_fresh = (sample_session (JadeI None))\<lparr>ses_started := False\<rparr>"

definition sample_state where
  "sample_state = (new_jade sample_families Regtest, sample_devices)"

definition sample_text :: string where
  "sample_text = encode_psbt sample_crates sample_psbt"

definition sample_transmit :: transmit where
  "sample_transmit = transmit_from
     \<lparr>ct_payload = [1], ct_encrypted = False, ct_recipient = CoreToDevice\<rparr>"

definition sample_running :: "core_command option session" where
  "sample_running = sample_fresh
     \<lparr>ses_inner := JadeI (Some (CmdSignTx sample_psbt None)), ses_started := True,
      ses_expect := ExpectSignedPsbt, ses_prior_inputs := [prior_input sample_psbt_input],
      ses_prior_unsigned_tx := Some [2]\<rparr>"

lemma sample_fresh_facts:
  "live_session (fst sample_state) = Some sample_fresh" "\<not> ses_started sample_fresh"
  "wf_session sample_fresh" "ses_kind sample_fresh = KJade"
  by (simp_all add: sample_state_def new_jade_def sample_fresh_def sample_session_def
      sample_families_def wf_session_def)

lemma sample_plan:
  "plan sample_crates (SignPsbt sample_text None) KJade
     = Inr (mk_plan (CmdSignTx sample_psbt None) ExpectSignedPsbt)"
proof -
  have "decode_psbt sample_crates sample_text = Inr sample_psbt"
    unfolding sample_text_def
    by (rule psbt_encode_decode [OF sample_base64_ok]) (simp add: sample_crates_def)
  then show ?thesis
    by (simp add: plan_sign_psbt_def check_ledger_context_def)
qed

lemma sample_run_start:
  "interp_call sample_crates sample_families (Op (StartOp (SignPsbt sample_text None)))
     (fst sample_state) d
   = (new_mutex (Some sample_running), d, Inr (Sent sample_transmit))"
  by (simp add: interp_start_def with_session_def lock_def sample_state_def new_jade_def
      interp_build_def start_session_def sample_plan session_start_def prior_of_command_def
      registration_id_of_def on_nothing_def wrap_inner_def relabel_def sample_running_def
      sample_fresh_def sample_session_def sample_transmit_def sample_families_def
      sample_machine_def new_mutex_def del: plan.simps)
    (simp add: sample_psbt_def sample_tx_def sample_wtxid_def sample_crates_def)

lemma sample_run_exchange:
  "interp_call sample_crates sample_families (Op (ExchangeOp [1]))
     (new_mutex (Some sample_running)) d
   = (new_mutex (Some (sample_running\<lparr>ses_finished := True\<rparr>)), d, Inr (Advanced None))"
  by (simp add: interp_exchange_def with_session_def lock_def exchange_session_def
      require_running_def session_advance_def on_nothing_def wrap_inner_def relabel_def
      sample_running_def sample_fresh_def sample_session_def sample_families_def
      sample_machine_def new_mutex_def)

lemma sample_check:
  "check_signed_psbt sample_crates [prior_input sample_psbt_input] (Some [2]) sample_psbt = Inr ()"
  by (simp add: check_signed_psbt_def preserved_def modes_match_def kept_or_final_def
      sample_psbt_def sample_tx_def sample_wtxid_def sample_crates_def)
    (simp add: sample_psbt_input_def default_psbt_input_def)

lemma sample_run_end:
  "interp_call sample_crates sample_families EndOp
     (new_mutex (Some (sample_running\<lparr>ses_finished := True\<rparr>))) d
   = (new_mutex None, d, Inr (Ended (HwiSignedPsbt sample_text)))"
  by (simp add: interp_end_def lock_def Let_def on_nothing_def relabel_def end_response_def
      sample_running_def sample_fresh_def sample_session_def sample_families_def
      sample_machine_def sample_check sample_text_def new_mutex_def)

lemma sample_run:
  "run_calls (interp_calls sample_crates sample_families)
     ([Op (StartOp (SignPsbt sample_text None)), Op (ExchangeOp [1])] @ [EndOp]) sample_state
   = ((new_mutex None, sample_devices),
      [Inr (Sent sample_transmit), Inr (Advanced None)]
        @ [Inr (Ended (HwiSignedPsbt sample_text))])"
  by (simp add: interp_calls_def sample_run_start sample_run_exchange sample_run_end
      del: interp_call.simps) (simp add: sample_state_def)

section \<open>Construction\<close>

text \<open>What a constructor that leases a cell under \<open>k\<close> does.\<close>

definition leases_on ::
    "lease_key \<Rightarrow> string \<Rightarrow> ('n, 'e) device_state
     \<Rightarrow> ('n, 'e) device_state \<times> (hwi_error + 'm interp) \<Rightarrow> bool" where
  "leases_on k msg d result \<longleftrightarrow>
     (if key_held k d then result = (d, Inl (BadState msg))
      else (\<exists>p d'. result = (d', Inr p) \<and> wf_interp p \<and> startable p \<and> interp_key p = Some k
        \<and> (\<forall>j. key_held j d' \<longleftrightarrow> j = k \<or> key_held j d)))"

lemma leases_on_acquire:
  assumes "wf_interp p" "startable p" "interp_key p = Some k"
    and "result = (case key_acquire k d of None \<Rightarrow> (d, Inl (BadState msg)) | Some d' \<Rightarrow> (d', Inr p))"
  shows "leases_on k msg d result"
proof (cases "key_held k d")
  case True
  then have "key_acquire k d = None" by (simp only: leases.at_key.acq_None_iff)
  with True assms(4) show ?thesis by (simp add: leases_on_def)
next
  case False
  then obtain d' where "key_acquire k d = Some d'" using leases.kacq_free by blast
  with False leases.kheld_after_acq [OF this] assms show ?thesis by (simp add: leases_on_def)
qed

text \<open>
  Construction leases exactly the handle it is given. On a free handle it succeeds, with an
  interpreter that owns that lease, is ready to start, and no other lease changed; on a handle
  in use it fails with a \<open>BadState\<close> and changes nothing. So for BitBox and for Coldcard.
\<close>

lemma construction_leases:
  "leases_on (NoiseKey h) ''noise handle is already leased'' d (new_bitbox F h network d)
   \<and> leases_on (ColdcardKey h) ''coldcard encryption is already leased'' d (new_coldcard F h d)"
  unfolding new_bitbox_def new_coldcard_def bad_state_def
  by (intro conjI leases_on_acquire refl) (simp_all add: wf_interp_build startable_def)

text \<open>
  The passphrase of a Trezor comes from one source. With both a host passphrase and on-device
  entry construction is refused; a cleared handle is refused as well; otherwise the interpreter
  is built with exactly the passphrase in the handle.
\<close>

lemma new_trezor_passphrase:
  "new_trezor F network handle on_device =
     (case handle of
        None \<Rightarrow> Inr (interp_build (TrezorI (trezor_new F (network_to_core network) None on_device))
                  KTrezor LeaseNone)
      | Some h \<Rightarrow>
          (if on_device then Inl (InvalidInput ''host and on-device passphrases are mutually exclusive'')
           else if poisoned h then Inl (Internal ''passphrase lock poisoned'')
           else (case guarded h of
                   None \<Rightarrow> Inl (BadState ''passphrase handle is cleared'')
                 | Some pass \<Rightarrow> Inr (interp_build
                     (TrezorI (trezor_new F (network_to_core network) (Some pass) False))
                     KTrezor LeaseNone))))"
  by (auto simp: new_trezor_def clone_passphrase_def lock_def invalid_def internal_def
      bad_state_def split: option.splits)

end
