(* ===== verification/Host.thy ===== *)
theory Host
  imports Interp
begin

text \<open>
  The bindings as a whole, as a host drives them: any number of handles and interpreters, made,
  called and dropped in any order, with replies a device is free to choose. Every call is one
  step, since the session's lock and the lease's flag make it atomic to the others (proved in
  \<open>Linearizable\<close>); a panic of the core inside a call is a step too. What is proved is what the
  leases are for.
\<close>

section \<open>The host\<close>

record ('m, 'n, 'e) host =
  devices :: "('n, 'e) device_state"
  noise_handles :: "handle set"
  coldcard_handles :: "handle set"
  interps :: "nat \<rightharpoonup> 'm interp"

text \<open>The constructors that borrow no handle.\<close>

definition owns_nothing :: "('m, 'c, 'n, 'e) families \<Rightarrow> 'm interp \<Rightarrow> bool" where
  "owns_nothing F p \<longleftrightarrow>
     p = new_ledger F
     \<or> (\<exists>network. p = new_jade F network \<or> p = new_specter F network
        \<or> (\<exists>pass. new_keepkey F network pass = Inr p)
        \<or> (\<exists>pass on_device. new_trezor F network pass on_device = Inr p))"

inductive host_step ::
    "crates \<Rightarrow> ('m, 'c, 'n, 'e) families \<Rightarrow> 'n noise_crate \<Rightarrow> (bytes \<Rightarrow> 'e)
     \<Rightarrow> ('m, 'n, 'e) host \<Rightarrow> ('m, 'n, 'e) host \<Rightarrow> bool"
  for C F N engine_new where
  make_noise: "\<lbrakk>a \<notin> noise_handles s; noise_handle_new N config = Inr h\<rbrakk> \<Longrightarrow>
     host_step C F N engine_new s
       (s\<lparr>devices := set_noise a h (devices s), noise_handles := insert a (noise_handles s)\<rparr>)"
| make_coldcard: "a \<notin> coldcard_handles s \<Longrightarrow>
     host_step C F N engine_new s
       (s\<lparr>devices := set_coldcard a (coldcard_encryption_new engine_new rng) (devices s),
          coldcard_handles := insert a (coldcard_handles s)\<rparr>)"
| export: "\<lbrakk>a \<in> noise_handles s; noise_export N (noises (devices s) a) = (h, r)\<rbrakk> \<Longrightarrow>
     host_step C F N engine_new s (s\<lparr>devices := set_noise a h (devices s)\<rparr>)"
| take_code: "\<lbrakk>a \<in> noise_handles s; take_pairing_code (noises (devices s) a) = (h, r)\<rbrakk> \<Longrightarrow>
     host_step C F N engine_new s (s\<lparr>devices := set_noise a h (devices s)\<rparr>)"
| make_bitbox: "\<lbrakk>a \<in> noise_handles s; interps s i = None;
     new_bitbox F a network (devices s) = (d, Inr p)\<rbrakk> \<Longrightarrow>
     host_step C F N engine_new s (s\<lparr>devices := d, interps := (interps s)(i \<mapsto> p)\<rparr>)"
| make_coldcard_interp: "\<lbrakk>a \<in> coldcard_handles s; interps s i = None;
     new_coldcard F a (devices s) = (d, Inr p)\<rbrakk> \<Longrightarrow>
     host_step C F N engine_new s (s\<lparr>devices := d, interps := (interps s)(i \<mapsto> p)\<rparr>)"
| make_other: "\<lbrakk>interps s i = None; owns_nothing F p\<rbrakk> \<Longrightarrow>
     host_step C F N engine_new s (s\<lparr>interps := (interps s)(i \<mapsto> p)\<rparr>)"
| call: "\<lbrakk>interps s i = Some p; interp_call C F op p (devices s) = (p', d, r)\<rbrakk> \<Longrightarrow>
     host_step C F N engine_new s (s\<lparr>devices := d, interps := (interps s)(i \<mapsto> p')\<rparr>)"
| drop_interp: "interps s i = Some p \<Longrightarrow>
     host_step C F N engine_new s
       (s\<lparr>devices := interp_drop p (devices s), interps := (interps s)(i := None)\<rparr>)"
  \<comment> \<open>a panic in \<open>start\<close> or \<open>exchange\<close>: the session stays behind a poisoned lock, with whatever
    the core did to itself and to the cell it borrows\<close>
| panic: "\<lbrakk>interps s i = Some p; live_session p = Some ses; wf_session ses';
     ses_lease ses' = ses_lease ses; agree_outside (ses_lease ses) (devices s) d\<rbrakk> \<Longrightarrow>
     host_step C F N engine_new s
       (s\<lparr>devices := d, interps := (interps s)(i \<mapsto> \<lparr>poisoned = True, guarded = Some ses'\<rparr>)\<rparr>)"

  \<comment> \<open>a panic in \<open>end\<close>: the session was taken out, and unwinding drops it with its lease\<close>
| panic_end: "\<lbrakk>interps s i = Some p; live_session p = Some ses;
     agree_outside (ses_lease ses) (devices s) d\<rbrakk> \<Longrightarrow>
     host_step C F N engine_new s
       (s\<lparr>devices := drop_lease (ses_lease ses) d,
          interps := (interps s)(i \<mapsto> \<lparr>poisoned = True, guarded = None\<rparr>)\<rparr>)"

inductive_cases host_stepE: "host_step C F N engine_new s t"

definition host_init :: "('m, 'n, 'e) host \<Rightarrow> bool" where
  "host_init s \<longleftrightarrow> noise_handles s = {} \<and> coldcard_handles s = {} \<and> interps s = Map.empty
     \<and> (\<forall>k. \<not> key_held k (devices s))"

section \<open>The invariant\<close>

definition holder :: "('m, 'n, 'e) host \<Rightarrow> nat \<rightharpoonup> lease_key" where
  "holder s i = Option.bind (interps s i) interp_key"

fun allocated :: "('m, 'n, 'e) host \<Rightarrow> lease_key \<Rightarrow> bool" where
  "allocated s (NoiseKey h) \<longleftrightarrow> h \<in> noise_handles s"
| "allocated s (ColdcardKey h) \<longleftrightarrow> h \<in> coldcard_handles s"

definition host_inv :: "('m, 'n, 'e) host \<Rightarrow> bool" where
  "host_inv s \<longleftrightarrow> lease_books key_held (holder s) (devices s)
     \<and> (\<forall>k. key_held k (devices s) \<longrightarrow> allocated s k)
     \<and> (\<forall>i p. interps s i = Some p \<longrightarrow> wf_interp p)"

lemma holder_update [simp]:
  "holder (s\<lparr>interps := (interps s)(i \<mapsto> p)\<rparr>) = (holder s)(i := interp_key p)"
  "holder (s\<lparr>devices := d, interps := (interps s)(i \<mapsto> p)\<rparr>) = (holder s)(i := interp_key p)"
  "holder (s\<lparr>devices := d, interps := (interps s)(i := None)\<rparr>) = (holder s)(i := None)"
  "holder (s\<lparr>interps := (interps s)(i := None)\<rparr>) = (holder s)(i := None)"
  "holder (s\<lparr>devices := d\<rparr>) = holder s"
  "holder (s\<lparr>devices := d, noise_handles := ns\<rparr>) = holder s"
  "holder (s\<lparr>devices := d, coldcard_handles := ns\<rparr>) = holder s"
  by (auto simp: holder_def fun_eq_iff)

lemma allocated_update [simp]:
  "allocated (s\<lparr>devices := d\<rparr>) k = allocated s k"
  "allocated (s\<lparr>interps := os\<rparr>) k = allocated s k"
  "allocated (s\<lparr>devices := d, interps := os\<rparr>) k = allocated s k"
  by (cases k; simp)+

lemma allocated_insert:
  "allocated s k \<Longrightarrow> allocated (s\<lparr>devices := d, noise_handles := insert a (noise_handles s)\<rparr>) k"
  "allocated s k \<Longrightarrow>
     allocated (s\<lparr>devices := d, coldcard_handles := insert a (coldcard_handles s)\<rparr>) k"
  by (cases k; simp)+

lemma host_inv_init: "host_init s \<Longrightarrow> host_inv s"
  by (auto simp: host_init_def host_inv_def lease_books_def holder_def)

text \<open>A step of the host on a handle that leaves every lease as it was.\<close>

lemma host_inv_devices:
  fixes s t :: "('m, 'n, 'e) host"
  assumes inv: "host_inv s" and held: "\<And>k. key_held k (devices t) = key_held k (devices s)"
    and alloc: "\<And>k. allocated s k \<Longrightarrow> allocated t k" and objs: "interps t = interps s"
  shows "host_inv t"
proof -
  have "holder t = holder s" by (simp add: holder_def fun_eq_iff objs)
  moreover have "lease_books key_held (holder s) (devices t)"
    by (rule lease_books_cong [of key_held "holder s" "devices s"])
      (use inv held in \<open>simp_all only: host_inv_def\<close>)
  moreover have "key_held k (devices t) \<Longrightarrow> allocated t k" for k
    using inv held [of k] alloc [of k] unfolding host_inv_def by blast
  moreover have "interps t i = Some p \<Longrightarrow> wf_interp p" for i p
    using inv unfolding host_inv_def objs by blast
  ultimately show ?thesis unfolding host_inv_def by simp
qed

lemma held_set_noise:
  "key_held k (set_noise a h d) =
     (if k = NoiseKey a then is_leased (nh_state h) else key_held k d)"
  by (cases k) simp_all

lemma held_set_coldcard:
  "key_held k (set_coldcard a h d) =
     (if k = ColdcardKey a then is_leased (ce_engine h) else key_held k d)"
  by (cases k) simp_all

lemma noise_handle_new_free: "noise_handle_new N config = Inr h \<Longrightarrow> \<not> is_leased (nh_state h)"
  by (auto simp: noise_handle_new_def result_simps)

lemma noise_export_lease: "noise_export N h = (h', r) \<Longrightarrow> is_leased (nh_state h') = is_leased (nh_state h)"
  by (auto simp: noise_export_def with_leased_def acquire_def release_def split: if_splits prod.splits)

lemma take_pairing_code_lease:
  "take_pairing_code h = (h', r) \<Longrightarrow> nh_state h' = nh_state h"
  by (auto simp: take_pairing_code_def split: option.splits)

lemma owns_nothing_facts: "owns_nothing F p \<Longrightarrow> wf_interp p \<and> interp_key p = None"
  by (auto simp: owns_nothing_def new_ledger_def new_jade_def new_specter_def new_keepkey_def
      new_trezor_def result_simps wf_interp_build)

text \<open>An interpreter that leases a handle joins the books.\<close>

lemma host_inv_acquire:
  assumes inv: "host_inv s" and "interps s i = None" and "key_acquire k (devices s) = Some d"
    and "allocated s k" and "wf_interp p" and "interp_key p = Some k"
  shows "host_inv (s\<lparr>devices := d, interps := (interps s)(i \<mapsto> p)\<rparr>)"
proof -
  have "lease_books key_held ((holder s)(i \<mapsto> k)) d"
    using inv assms(2, 3) by (intro leases.books_acquire) (simp_all add: host_inv_def holder_def)
  with assms leases.kheld_after_acq [OF assms(3)] show ?thesis by (auto simp: host_inv_def)
qed

lemma host_inv_call:
  assumes inv: "host_inv s" and p: "interps s i = Some p"
    and c: "interp_call C F op p (devices s) = (p', d, r)"
  shows "host_inv (s\<lparr>devices := d, interps := (interps s)(i \<mapsto> p')\<rparr>)"
proof -
  have wf: "wf_interp p" using inv p by (simp add: host_inv_def)
  have "lease_books key_held ((holder s)(i := interp_key p')) d"
    using inv p by (intro client.books_call [OF wf c]) (simp_all add: host_inv_def holder_def)
  moreover have "key_held k d \<Longrightarrow> key_held k (devices s)" for k
    using client.ocall_lease [OF wf c] by (auto simp: leases.kheld_after_rel split: option.splits)
  ultimately show ?thesis
    using inv client.ocall_inv [OF wf c] by (auto simp: host_inv_def)
qed

lemma host_inv_drop:
  assumes inv: "host_inv s" and p: "interps s i = Some p"
  shows "host_inv (s\<lparr>devices := interp_drop p (devices s), interps := (interps s)(i := None)\<rparr>)"
proof (cases "interp_key p")
  case None
  with inv p show ?thesis
    using leases.books_no_lease [of "holder s" "devices s" i]
    by (auto simp: host_inv_def interp_drop_key holder_def [of s i])
next
  case (Some k)
  have "lease_books key_held ((holder s)(i := None)) (key_release k (devices s))"
    using inv p Some by (intro leases.books_release) (simp_all add: host_inv_def holder_def)
  with inv p Some show ?thesis by (auto simp: host_inv_def interp_drop_key leases.kheld_after_rel)
qed

lemma host_inv_panic:
  assumes inv: "host_inv s" and p: "interps s i = Some p" and live: "live_session p = Some ses"
    and wf: "wf_session ses'" and lease: "ses_lease ses' = ses_lease ses"
    and frame: "agree_outside (ses_lease ses) (devices s) d"
  shows "host_inv (s\<lparr>devices := d,
    interps := (interps s)(i \<mapsto> \<lparr>poisoned = True, guarded = Some ses'\<rparr>)\<rparr>)"
proof -
  have "interp_key \<lparr>poisoned = True, guarded = Some ses'\<rparr> = interp_key p"
    using live lease by (simp add: interp_key_def live_session_eq)
  then have key: "(holder s)(i := interp_key \<lparr>poisoned = True, guarded = Some ses'\<rparr>) = holder s"
    using p by (simp add: holder_def fun_eq_iff)
  have held: "key_held k d = key_held k (devices s)" for k using frame by (rule agree_outside_held)
  have "lease_books key_held (holder s) (devices s)" using inv by (simp only: host_inv_def)
  then have "lease_books key_held (holder s) d" by (rule lease_books_cong) (rule held)
  with inv key held wf show ?thesis by (auto simp: host_inv_def wf_interp_def)
qed

lemma interp_key_gone [simp]: "interp_key \<lparr>poisoned = b, guarded = None\<rparr> = None"
  by (simp add: interp_key_def)

lemma host_inv_panic_end:
  assumes inv: "host_inv s" and p: "interps s i = Some p" and live: "live_session p = Some ses"
    and frame: "agree_outside (ses_lease ses) (devices s) d"
  shows "host_inv (s\<lparr>devices := drop_lease (ses_lease ses) d,
    interps := (interps s)(i \<mapsto> \<lparr>poisoned = True, guarded = None\<rparr>)\<rparr>)"
proof -
  have key: "interp_key p = lease_key_of (ses_lease ses)"
    using live by (simp add: interp_key_def live_session_eq)
  have held: "key_held k d = key_held k (devices s)" for k using frame by (rule agree_outside_held)
  have "lease_books key_held (holder s) (devices s)" using inv by (simp only: host_inv_def)
  then have books: "lease_books key_held (holder s) d" by (rule lease_books_cong) (rule held)
  have alloc: "key_held k d \<Longrightarrow> allocated s k" for k
    using inv held [of k] by (auto simp: host_inv_def)
  show ?thesis
  proof (cases "interp_key p")
    case None
    with p key inv books alloc show ?thesis
      using leases.books_no_lease [OF books, of i]
      by (auto simp: host_inv_def drop_lease_key holder_def [of s i] wf_interp_def)
  next
    case (Some k)
    have "lease_books key_held ((holder s)(i := None)) (key_release k d)"
      using books p Some by (intro leases.books_release) (simp_all add: holder_def)
    with Some key inv alloc show ?thesis
      by (auto simp: host_inv_def drop_lease_key leases.kheld_after_rel wf_interp_def)
  qed
qed

lemma host_inv_step:
  assumes inv: "host_inv s" and step: "host_step C F N engine_new s t"
  shows "host_inv t"
  using step
proof (cases rule: host_step.cases)
  case (make_noise a config h)
  have "\<not> key_held (NoiseKey a) (devices s)"
    using inv make_noise(2) unfolding host_inv_def by (metis allocated.simps(1))
  then have "key_held k (set_noise a h (devices s)) = key_held k (devices s)" for k
    using noise_handle_new_free [OF make_noise(3)] by (simp add: held_set_noise)
  then show ?thesis
    unfolding make_noise(1) by (intro host_inv_devices [OF inv]) (simp_all add: allocated_insert)
next
  case (make_coldcard a rng)
  have "\<not> key_held (ColdcardKey a) (devices s)"
    using inv make_coldcard(2) unfolding host_inv_def by (metis allocated.simps(2))
  then have "key_held k (set_coldcard a (coldcard_encryption_new engine_new rng) (devices s))
      = key_held k (devices s)" for k
    by (simp add: held_set_coldcard coldcard_encryption_new_def)
  then show ?thesis
    unfolding make_coldcard(1) by (intro host_inv_devices [OF inv]) (simp_all add: allocated_insert)
next
  case (export a h r)
  have "key_held k (set_noise a h (devices s)) = key_held k (devices s)" for k
    using noise_export_lease [OF export(3)] by (simp add: held_set_noise)
  then show ?thesis unfolding export(1) by (intro host_inv_devices [OF inv]) simp_all
next
  case (take_code a h r)
  have "key_held k (set_noise a h (devices s)) = key_held k (devices s)" for k
    using take_pairing_code_lease [OF take_code(3)] by (simp add: held_set_noise)
  then show ?thesis unfolding take_code(1) by (intro host_inv_devices [OF inv]) simp_all
next
  case (make_bitbox a i network d p)
  then obtain "key_acquire (NoiseKey a) (devices s) = Some d"
    "p = interp_build (BitBoxI a (bitbox_new F (network_to_core network))) KBitBox (LeaseNoise a)"
    by (auto simp: new_bitbox_def split: option.splits simp del: key_acquire.simps)
  with make_bitbox show ?thesis
    using host_inv_acquire [OF inv, of i "NoiseKey a" d p] by (simp add: wf_interp_build)
next
  case (make_coldcard_interp a i d p)
  then obtain "key_acquire (ColdcardKey a) (devices s) = Some d"
    "p = interp_build (ColdcardI a (coldcard_new F)) KColdcard (LeaseColdcard a)"
    by (auto simp: new_coldcard_def split: option.splits simp del: key_acquire.simps)
  with make_coldcard_interp show ?thesis
    using host_inv_acquire [OF inv, of i "ColdcardKey a" d p] by (simp add: wf_interp_build)
next
  case (make_other i p)
  then have "(holder s)(i := interp_key p) = holder s"
    using owns_nothing_facts [of F p] by (simp add: holder_def fun_eq_iff)
  with make_other inv owns_nothing_facts [of F p] show ?thesis by (auto simp: host_inv_def)
qed (use host_inv_call [OF inv] host_inv_drop [OF inv] host_inv_panic [OF inv]
    host_inv_panic_end [OF inv] in blast)+

interpretation host_system: invariant_system host_init "host_step C F N engine_new" host_inv
  for C and F :: "('m, 'c, 'n, 'e) families" and N engine_new
  by unfold_locales (rule host_inv_init host_inv_step; assumption)+

section \<open>Ownership, abstractly\<close>

text \<open>
  What the leases promise, without handles, sessions or errors: keys have owners. A step leaves
  the owners alone, gives a key that nobody owns to somebody who owns none, or takes a key back.
\<close>

inductive own_step :: "(nat \<rightharpoonup> lease_key) \<Rightarrow> (nat \<rightharpoonup> lease_key) \<Rightarrow> bool" where
  own_stutter: "own_step ow ow"
| own_take: "ow i = None \<Longrightarrow> k \<notin> ran ow \<Longrightarrow> own_step ow (ow(i \<mapsto> k))"
| own_give: "own_step ow (ow(i := None))"

inductive_simps own_step_simps: "own_step ow ow'"

lemma own_step_call:
  "ow i = key \<Longrightarrow> key' = key \<or> key' = None \<Longrightarrow> own_step ow (ow(i := key'))"
  by (auto simp: fun_upd_idem intro: own_stutter own_give)

lemma own_step_take:
  assumes "host_inv s" and "interps s i = None" and "key_acquire k (devices s) = Some d"
  shows "own_step (holder s) ((holder s)(i \<mapsto> k))"
proof (rule own_take)
  show "holder s i = None" using assms(2) by (simp add: holder_def)
  have "\<not> key_held k (devices s)" using assms(3) leases.at_key.acq_Some by blast
  moreover have "lease_books key_held (holder s) (devices s)" using assms(1) by (simp add: host_inv_def)
  ultimately show "k \<notin> ran (holder s)" by (auto simp: ran_def lease_books_held)
qed

lemma host_step_owns:
  assumes inv: "host_inv s" and step: "host_step C F N engine_new s t"
  shows "own_step (holder s) (holder t)"
  using step
proof (cases rule: host_step.cases)
  case (make_bitbox a i network d p)
  then have "key_acquire (NoiseKey a) (devices s) = Some d" "interp_key p = Some (NoiseKey a)"
    by (auto simp: new_bitbox_def split: option.splits simp del: key_acquire.simps)
  with make_bitbox own_step_take [OF inv] show ?thesis by simp
next
  case (make_coldcard_interp a i d p)
  then have "key_acquire (ColdcardKey a) (devices s) = Some d" "interp_key p = Some (ColdcardKey a)"
    by (auto simp: new_coldcard_def split: option.splits simp del: key_acquire.simps)
  with make_coldcard_interp own_step_take [OF inv] show ?thesis by simp
next
  case (make_other i p)
  then show ?thesis
    using owns_nothing_facts [of F p] by (simp add: holder_def own_step_call)
next
  case (call i p op p' d r)
  have "wf_interp p" using inv call(2) by (simp add: host_inv_def)
  from client.ocall_lease [OF this call(3)] have "interp_key p' = interp_key p \<or> interp_key p' = None"
    by (elim exE conjE disjE) simp_all
  then show ?thesis using call(1, 2) by (simp add: own_step_call holder_def)
next
  case (panic i p ses ses' d)
  then have "interp_key \<lparr>poisoned = True, guarded = Some ses'\<rparr> = interp_key p"
    by (simp add: interp_key_def live_session_eq)
  with panic(1, 2) show ?thesis by (simp add: own_step_call holder_def)
qed (simp_all add: own_stutter own_give)

section \<open>Isolation of one call\<close>

definition untouched_but ::
    "lease_key option \<Rightarrow> ('n, 'e) device_state \<Rightarrow> ('n, 'e) device_state \<Rightarrow> bool" where
  "untouched_but k d d' \<longleftrightarrow>
     (\<forall>h. k \<noteq> Some (NoiseKey h) \<longrightarrow> noises d' h = noises d h)
     \<and> (\<forall>h. k \<noteq> Some (ColdcardKey h) \<longrightarrow> coldcards d' h = coldcards d h)"

lemma untouched_agree: "agree_outside l d d' \<Longrightarrow> untouched_but (lease_key_of l) d d'"
  by (cases l) (simp_all add: agree_outside_def untouched_but_def)

lemma untouched_drop: "untouched_but (lease_key_of l) d d' \<Longrightarrow> untouched_but (lease_key_of l) d (drop_lease l d')"
  by (cases l) (auto simp: untouched_but_def)

lemma interp_call_untouched:
  assumes "wf_interp p" and "interp_call C F op p d = (p', d', r)"
  shows "untouched_but (interp_key p) d d'"
proof (cases "live_session p")
  case None
  with assms show ?thesis by (simp add: dead_interp_call untouched_but_def)
next
  case (Some s)
  then have k: "interp_key p = lease_key_of (ses_lease s)"
    by (simp add: interp_key_def live_session_eq)
  have wf: "wf_session s" using assms(1) Some by (rule wf_interp_live)
  show ?thesis
  proof (cases op)
    case (Op sop)
    obtain s1 d1 out where c: "session_call C F sop s d = (s1, d1, out)"
      by (cases "session_call C F sop s d")
    have "untouched_but (lease_key_of (ses_lease s)) d d1"
      using session_call_keeps [OF c] wf by (intro untouched_agree) (simp add: wf_session_def)
    with assms(2) untouched_drop show ?thesis
      by (auto simp: Op op_call_live [OF Some c] k split: if_splits)
  next
    case EndOp
    from interp_end_live [OF Some wf, of C F d] obtain d1 r1
      where e: "interp_end C F p d = (p\<lparr>guarded := None\<rparr>, drop_lease (ses_lease s) d1, r1)"
        and frame: "agree_outside (ses_lease s) d d1" by blast
    show ?thesis
      using assms(2) e untouched_drop [OF untouched_agree [OF frame]]
      by (auto simp: EndOp result_simps k)
  qed
qed

section \<open>A concrete host\<close>

definition sample_noise_handle :: "noise_config_data noise_handle" where
  "sample_noise_handle = \<lparr>nh_state = new_leased (noise_state_new sample_noise None),
     nh_pairing_code = new_mutex None\<rparr>"

definition sample_host0 :: "(core_command option, noise_config_data, nat) host" where
  "sample_host0 = \<lparr>devices = sample_devices, noise_handles = {}, coldcard_handles = {},
     interps = Map.empty\<rparr>"

definition sample_host1 :: "(core_command option, noise_config_data, nat) host" where
  "sample_host1 = sample_host0\<lparr>devices := set_noise 4 sample_noise_handle (devices sample_host0),
     noise_handles := insert 4 (noise_handles sample_host0)\<rparr>"

definition sample_bitbox :: "core_command option interp" where
  "sample_bitbox = interp_build (BitBoxI 4 None) KBitBox (LeaseNoise 4)"

definition sample_host2 :: "(core_command option, noise_config_data, nat) host" where
  "sample_host2 = sample_host1
     \<lparr>devices := fst (new_bitbox sample_families 4 Regtest (devices sample_host1)),
      interps := (interps sample_host1)(7 \<mapsto> sample_bitbox)\<rparr>"

definition sample_host3 :: "(core_command option, noise_config_data, nat) host" where
  "sample_host3 = sample_host2\<lparr>interps := (interps sample_host2)(8 \<mapsto> new_jade sample_families Regtest)\<rparr>"

abbreviation sample_reachable :: "(core_command option, noise_config_data, nat) host \<Rightarrow> bool" where
  "sample_reachable \<equiv>
     reachable host_init (host_step sample_crates sample_families sample_noise length)"

lemma new_bitbox_free:
  assumes "\<not> key_held (NoiseKey h) d"
  shows "new_bitbox F h network d = (fst (new_bitbox F h network d),
    Inr (interp_build (BitBoxI h (bitbox_new F (network_to_core network))) KBitBox (LeaseNoise h)))"
  using leases.kacq_free [OF assms] by (auto simp: new_bitbox_def simp del: key_acquire.simps)

lemma sample_bitbox_made:
  "new_bitbox sample_families 4 Regtest (devices sample_host1)
     = (fst (new_bitbox sample_families 4 Regtest (devices sample_host1)), Inr sample_bitbox)"
proof -
  have "\<not> key_held (NoiseKey 4) (devices sample_host1)"
    by (simp add: sample_host1_def sample_noise_handle_def)
  from new_bitbox_free [OF this, of sample_families Regtest] show ?thesis
    by (simp only: sample_bitbox_def) (simp add: sample_families_def)
qed

lemma sample_host_steps:
  "host_init sample_host0"
  "host_step sample_crates sample_families sample_noise length sample_host0 sample_host1"
  "host_step sample_crates sample_families sample_noise length sample_host1 sample_host2"
  "host_step sample_crates sample_families sample_noise length sample_host2 sample_host3"
proof -
  have "\<not> key_held k sample_devices" for k
    by (cases k) (simp_all add: sample_devices_def coldcard_encryption_new_def)
  then show "host_init sample_host0" by (simp add: host_init_def sample_host0_def)
  show "host_step sample_crates sample_families sample_noise length sample_host0 sample_host1"
    unfolding sample_host1_def
    by (rule make_noise [where config = None])
      (simp_all add: sample_host0_def noise_handle_new_def sample_noise_handle_def)
  show "host_step sample_crates sample_families sample_noise length sample_host1 sample_host2"
    unfolding sample_host2_def
    by (rule make_bitbox [OF _ _ sample_bitbox_made])
      (simp_all add: sample_host1_def sample_host0_def)
  show "host_step sample_crates sample_families sample_noise length sample_host2 sample_host3"
    unfolding sample_host3_def
    by (rule make_other)
      (auto simp: sample_host2_def sample_host1_def sample_host0_def owns_nothing_def)
qed

lemma sample_host_reachable: "sample_reachable sample_host3"
  using sample_host_steps by (meson reachable_init reachable_step)

lemma sample_host3_interps:
  "interps sample_host3 7 = Some sample_bitbox"
  "interps sample_host3 8 = Some (new_jade sample_families Regtest)"
  "4 \<in> noise_handles sample_host3" "holder sample_host3 7 = Some (NoiseKey 4)"
  by (simp_all add: sample_host3_def sample_host2_def sample_host1_def holder_def sample_bitbox_def)

section \<open>What leases are for\<close>

text \<open>
  C6: the bindings refine plain ownership. Seen through who owns what, every step of a host is a
  step of the abstract ownership discipline: a handle changes hands only by being given up first.
\<close>

theorem host_refines_ownership:
  assumes "reachable host_init (host_step C F N engine_new) s"
    and "host_step C F N engine_new s t"
  shows "own_step (holder s) (holder t)"
  using host_system.reachable_inv [OF assms(1)] assms(2) by (rule host_step_owns)

text \<open>
  C4: leases are neither shared nor lost. In every state a host can bring about, through any
  calls, failures, drops and panics, a handle is leased exactly when one interpreter still owns
  it, and that interpreter is the only one.
\<close>

theorem leases_owned_once:
  assumes "reachable host_init (host_step C F N engine_new) s"
  shows "key_held k (devices s) \<longleftrightarrow> (\<exists>!i. \<exists>p. interps s i = Some p \<and> interp_key p = Some k)"
proof -
  have books: "lease_books key_held (holder s) (devices s)"
    using host_system.reachable_inv [OF assms] by (simp add: host_inv_def)
  have "holder s i = Some k \<longleftrightarrow> (\<exists>p. interps s i = Some p \<and> interp_key p = Some k)" for i
    by (auto simp: holder_def bind_eq_Some_conv)
  then show ?thesis
    using lease_books_held [OF books, of k] lease_books_exclusive [OF books] by metis
qed

theorem leases_owned_once_witness:
  "key_held (NoiseKey 4) (devices sample_host3) \<longleftrightarrow>
     (\<exists>!i. \<exists>p. interps sample_host3 i = Some p \<and> interp_key p = Some (NoiseKey 4))"
  by (rule leases_owned_once [OF sample_host_reachable])

text \<open>
  C20: a handle that no interpreter owns is usable at once, and one that is owned is refused. For
  every noise handle of every reachable host: \<open>new_bitbox\<close> and \<open>export\<close> succeed on it when no
  interpreter owns it, and otherwise both fail with a \<open>BadState\<close> and change nothing.
\<close>

theorem noise_handle_availability:
  assumes "reachable host_init (host_step C F N engine_new) s" and "a \<in> noise_handles s"
  shows "if \<exists>i. holder s i = Some (NoiseKey a)
    then new_bitbox F a network (devices s)
        = (devices s, Inl (BadState ''noise handle is already leased''))
      \<and> noise_export N (noises (devices s) a)
        = (noises (devices s) a, Inl (BadState ''noise handle is in use by an interpreter''))
    else is_ok (snd (new_bitbox F a network (devices s)))
      \<and> snd (noise_export N (noises (devices s) a))
        = Inr (noise_config_from (noise_state_data N (cell (nh_state (noises (devices s) a)))))"
proof -
  have "lease_books key_held (holder s) (devices s)"
    using host_system.reachable_inv [OF assms(1)] by (simp add: host_inv_def)
  from lease_books_held [OF this, of "NoiseKey a"] show ?thesis
    by (auto simp: new_bitbox_def noise_export_def with_leased_def acquire_def bad_state_def)
qed

theorem noise_handle_availability_witness:
  "if \<exists>i. holder sample_host3 i = Some (NoiseKey 4)
    then new_bitbox sample_families 4 Regtest (devices sample_host3)
        = (devices sample_host3, Inl (BadState ''noise handle is already leased''))
      \<and> noise_export sample_noise (noises (devices sample_host3) 4)
        = (noises (devices sample_host3) 4,
           Inl (BadState ''noise handle is in use by an interpreter''))
    else is_ok (snd (new_bitbox sample_families 4 Regtest (devices sample_host3)))
      \<and> snd (noise_export sample_noise (noises (devices sample_host3) 4))
        = Inr (noise_config_from (noise_state_data sample_noise
            (cell (nh_state (noises (devices sample_host3) 4)))))"
  by (rule noise_handle_availability [OF sample_host_reachable sample_host3_interps(3)])

text \<open>
  C5: interpreters are isolated. A call on one interpreter, whatever it is and however it ends,
  leaves the state that another one borrows bit for bit as it was, its lease included.
\<close>

theorem calls_isolated:
  assumes "reachable host_init (host_step C F N engine_new) s"
    and "interps s i = Some p" and "interp_call C F op p (devices s) = (p', d, r)"
    and "holder s j = Some k" and "j \<noteq> i"
  shows "(case k of NoiseKey h \<Rightarrow> noises d h = noises (devices s) h
      | ColdcardKey h \<Rightarrow> coldcards d h = coldcards (devices s) h)
    \<and> key_held k d"
proof -
  have inv: "host_inv s" by (rule host_system.reachable_inv [OF assms(1)])
  then have wf: "wf_interp p" and books: "lease_books key_held (holder s) (devices s)"
    using assms(2) by (simp_all add: host_inv_def)
  have "interp_key p \<noteq> Some k"
    using lease_books_exclusive [OF books assms(4), of i] assms(2, 5) by (auto simp: holder_def)
  moreover have "key_held k (devices s)" using lease_books_held [OF books, of k] assms(4) by blast
  moreover have "untouched_but (interp_key p) (devices s) d"
    by (rule interp_call_untouched [OF wf assms(3)])
  ultimately show ?thesis by (cases k) (auto simp: untouched_but_def)
qed

definition sample_isolated_call where
  "sample_isolated_call = interp_call sample_crates sample_families EndOp
     (new_jade sample_families Regtest) (devices sample_host3)"

theorem calls_isolated_witness:
  "(case NoiseKey 4 of
      NoiseKey h \<Rightarrow> noises (fst (snd sample_isolated_call)) h = noises (devices sample_host3) h
    | ColdcardKey h \<Rightarrow>
        coldcards (fst (snd sample_isolated_call)) h = coldcards (devices sample_host3) h)
    \<and> key_held (NoiseKey 4) (fst (snd sample_isolated_call))"
  by (rule calls_isolated [OF sample_host_reachable sample_host3_interps(2) _
        sample_host3_interps(4), of EndOp "fst sample_isolated_call" _
        "snd (snd sample_isolated_call)"])
    (simp_all add: sample_isolated_call_def del: interp_call.simps)

theorem host_refines_ownership_witness:
  "own_step (holder sample_host3) (holder (sample_host3
     \<lparr>devices := interp_drop sample_bitbox (devices sample_host3),
      interps := (interps sample_host3)(7 := None)\<rparr>))"
  by (rule host_refines_ownership [OF sample_host_reachable])
    (rule drop_interp [OF sample_host3_interps(1)])

end
