(* ===== verification/Traces.thy ===== *)
theory Traces
  imports Host
begin

text \<open>
  Histories of a host. A trace is the list of calls on interpreters and leased handles, with their
  results, of a run in which any number of objects are made, called, dropped and struck by
  panics in any order. What \<open>end\<close> returns is related to the \<open>start\<close> that is in the history, across
  everything that happened in between.
\<close>

section \<open>Traces\<close>

text \<open>
  \<open>start\<close>, \<open>exchange\<close> and \<open>end\<close>, \<open>NoiseHandle::export\<close>, and the two constructors that take a
  lease, with the interpreter they made.
\<close>

datatype call_event =
    Called nat interp_op "hwi_error + interp_reply"
  | Exported handle "hwi_error + noise_config"
  | BuiltBitbox handle network "hwi_error + nat"
  | BuiltColdcard handle "hwi_error + nat"

text \<open>A step that is not in the history starts no command and takes no lease.\<close>

definition starts_nothing :: "('m, 'n, 'e) host \<Rightarrow> ('m, 'n, 'e) host \<Rightarrow> bool" where
  "starts_nothing s t \<longleftrightarrow> (\<forall>i p ses. interps t i = Some p \<longrightarrow> live_session p = Some ses \<longrightarrow>
     ses_started ses \<longrightarrow> interps s i = Some p)"

definition unrecorded :: "('m, 'n, 'e) host \<Rightarrow> ('m, 'n, 'e) host \<Rightarrow> bool" where
  "unrecorded s t \<longleftrightarrow> starts_nothing s t \<and> holder t \<subseteq>\<^sub>m holder s"

inductive host_trace ::
    "crates \<Rightarrow> ('m, 'c, 'n, 'e) families \<Rightarrow> 'n noise_crate \<Rightarrow> (bytes \<Rightarrow> 'e)
     \<Rightarrow> call_event list \<Rightarrow> ('m, 'n, 'e) host \<Rightarrow> bool"
  for C F N engine_new where
  trace_init: "host_init s \<Longrightarrow> host_trace C F N engine_new [] s"
| trace_call: "\<lbrakk>host_trace C F N engine_new evs s; interps s i = Some p;
     interp_call C F op p (devices s) = (p', d, r)\<rbrakk> \<Longrightarrow>
     host_trace C F N engine_new (evs @ [Called i op r])
       (s\<lparr>devices := d, interps := (interps s)(i \<mapsto> p')\<rparr>)"
| trace_export: "\<lbrakk>host_trace C F N engine_new evs s; a \<in> noise_handles s;
     noise_export N (noises (devices s) a) = (h, r)\<rbrakk> \<Longrightarrow>
     host_trace C F N engine_new (evs @ [Exported a r]) (s\<lparr>devices := set_noise a h (devices s)\<rparr>)"
| trace_bitbox: "\<lbrakk>host_trace C F N engine_new evs s; a \<in> noise_handles s; interps s i = None;
     new_bitbox F a network (devices s) = (d, Inr p)\<rbrakk> \<Longrightarrow>
     host_trace C F N engine_new (evs @ [BuiltBitbox a network (Inr i)])
       (s\<lparr>devices := d, interps := (interps s)(i \<mapsto> p)\<rparr>)"
| trace_bitbox_refused: "\<lbrakk>host_trace C F N engine_new evs s; a \<in> noise_handles s;
     new_bitbox F a network (devices s) = (d, Inl e)\<rbrakk> \<Longrightarrow>
     host_trace C F N engine_new (evs @ [BuiltBitbox a network (Inl e)]) (s\<lparr>devices := d\<rparr>)"
| trace_coldcard: "\<lbrakk>host_trace C F N engine_new evs s; a \<in> coldcard_handles s; interps s i = None;
     new_coldcard F a (devices s) = (d, Inr p)\<rbrakk> \<Longrightarrow>
     host_trace C F N engine_new (evs @ [BuiltColdcard a (Inr i)])
       (s\<lparr>devices := d, interps := (interps s)(i \<mapsto> p)\<rparr>)"
| trace_coldcard_refused: "\<lbrakk>host_trace C F N engine_new evs s; a \<in> coldcard_handles s;
     new_coldcard F a (devices s) = (d, Inl e)\<rbrakk> \<Longrightarrow>
     host_trace C F N engine_new (evs @ [BuiltColdcard a (Inl e)]) (s\<lparr>devices := d\<rparr>)"
| trace_other: "\<lbrakk>host_trace C F N engine_new evs s; host_step C F N engine_new s t;
     unrecorded s t\<rbrakk> \<Longrightarrow> host_trace C F N engine_new evs t"

lemma unrecordedI:
  assumes "\<And>i p. interps t i = Some p \<Longrightarrow> interps s i = Some p \<or> interp_key p = None
      \<and> (\<forall>ses. live_session p = Some ses \<longrightarrow> \<not> ses_started ses)
    \<or> live_session p = None \<and> holder s i = interp_key p"
  shows "unrecorded s t"
  unfolding unrecorded_def starts_nothing_def map_le_def holder_def
proof (intro conjI allI impI ballI)
  fix i p ses assume "interps t i = Some p" "live_session p = Some ses" "ses_started ses"
  with assms [of i p] show "interps s i = Some p" by auto
next
  fix i assume "i \<in> dom (\<lambda>i. Option.bind (interps t i) interp_key)"
  then obtain p k where "interps t i = Some p" "interp_key p = Some k"
    by (auto simp: bind_eq_Some_conv)
  with assms [of i p] show "Option.bind (interps t i) interp_key = Option.bind (interps s i) interp_key"
    by (auto simp: holder_def)
qed

text \<open>The two constructors either make an interpreter that has not started, or change nothing.\<close>

lemma new_bitbox_Inl: "new_bitbox F a network d = (d', Inl e) \<Longrightarrow> d' = d"
  by (auto simp: new_bitbox_def split: option.splits simp del: key_acquire.simps)

lemma new_coldcard_Inl: "new_coldcard F a d = (d', Inl e) \<Longrightarrow> d' = d"
  by (auto simp: new_coldcard_def split: option.splits simp del: key_acquire.simps)

lemma new_bitbox_startable: "new_bitbox F a network d = (d', Inr p) \<Longrightarrow> startable p"
  by (auto simp: new_bitbox_def startable_def split: option.splits simp del: key_acquire.simps)

lemma new_coldcard_startable: "new_coldcard F a d = (d', Inr p) \<Longrightarrow> startable p"
  by (auto simp: new_coldcard_def startable_def split: option.splits simp del: key_acquire.simps)

lemma owns_nothing_startable: "owns_nothing F p \<Longrightarrow> startable p"
  by (auto simp: owns_nothing_def new_ledger_def new_jade_def new_specter_def new_keepkey_def
      new_trezor_def result_simps startable_def)

lemma owns_nothing_unrecorded:
  assumes "owns_nothing F p" and "interps t = (interps s)(i \<mapsto> p)"
  shows "unrecorded s t"
  using owns_nothing_startable [OF assms(1)] owns_nothing_facts [OF assms(1)] assms(2)
  by (intro unrecordedI) (auto simp: startable_def split: if_splits)

lemma same_interps_unrecorded: "interps t = interps s \<Longrightarrow> unrecorded s t"
  by (rule unrecordedI) simp

lemma drop_unrecorded: "interps t = (interps s)(i := None) \<Longrightarrow> unrecorded s t"
  by (rule unrecordedI) (auto split: if_splits)

lemma panic_unrecorded:
  assumes "interps s i = Some p" and "live_session p = Some ses"
    and "interps t = (interps s)(i \<mapsto> \<lparr>poisoned = True, guarded = g\<rparr>)"
    and "g = None \<or> (\<exists>ses'. g = Some ses' \<and> ses_lease ses' = ses_lease ses)"
  shows "unrecorded s t"
proof -
  have "holder s i = lease_key_of (ses_lease ses)"
    using assms(1, 2) by (simp add: holder_def interp_key_def live_session_eq)
  with assms(3, 4) show ?thesis
    unfolding unrecorded_def starts_nothing_def map_le_def
    by (auto simp: holder_def interp_key_def live_session_def split: if_splits)
qed

text \<open>Traces cover all runs, and only those.\<close>

lemma step_traced:
  assumes step: "host_step C F N engine_new s t" and trace: "host_trace C F N engine_new evs s"
  shows "\<exists>evs'. host_trace C F N engine_new evs' t"
proof -
  have other: "unrecorded s t \<Longrightarrow> ?thesis" using trace_other [OF trace step] by blast
  show ?thesis
    using step
  proof (cases rule: host_step.cases)
    case (export a h r)
    then show ?thesis using trace_export [OF trace] by blast
  next
    case (make_bitbox a i network d p)
    then show ?thesis using trace_bitbox [OF trace] by blast
  next
    case (make_coldcard_interp a i d p)
    then show ?thesis using trace_coldcard [OF trace] by blast
  next
    case (call i p op p' d r)
    then show ?thesis using trace_call [OF trace] by blast
  next
    case (make_other i p)
    then have "unrecorded s t" by (intro owns_nothing_unrecorded) auto
    then show ?thesis by (rule other)
  next
    case (drop_interp i p)
    then have "unrecorded s t" by (intro drop_unrecorded) auto
    then show ?thesis by (rule other)
  next
    case (panic i p ses ses' d)
    then have "unrecorded s t" by (intro panic_unrecorded [of s i p ses]) auto
    then show ?thesis by (rule other)
  next
    case (panic_end i p ses d)
    then have "unrecorded s t" by (intro panic_unrecorded [of s i p ses]) auto
    then show ?thesis by (rule other)
  qed (rule other, rule same_interps_unrecorded, simp)+
qed

lemma reachable_traced:
  assumes "reachable host_init (host_step C F N engine_new) s"
  shows "\<exists>evs. host_trace C F N engine_new evs s"
  using assms by (induction rule: reachable.induct) (blast intro: trace_init dest: step_traced)+

lemma traced_reachable:
  "host_trace C F N engine_new evs s \<Longrightarrow> reachable host_init (host_step C F N engine_new) s"
proof (induction rule: host_trace.induct)
  case (trace_bitbox_refused evs s a network d e)
  then show ?case using new_bitbox_Inl by fastforce
next
  case (trace_coldcard_refused evs s a d e)
  then show ?case using new_coldcard_Inl by fastforce
qed (blast intro: reachable_init reachable_step host_step.intros)+

section \<open>The command an interpreter is on\<close>

text \<open>\<open>cmd\<close> is the last command started on interpreter \<open>i\<close>, by the call at position \<open>j\<close>.\<close>

definition last_start :: "call_event list \<Rightarrow> nat \<Rightarrow> nat \<Rightarrow> hwi_command \<Rightarrow> bool" where
  "last_start evs i j cmd \<longleftrightarrow> j < length evs
     \<and> (\<exists>t. evs ! j = Called i (Op (StartOp cmd)) (Inr (Sent t)))
     \<and> (\<forall>k op t. j < k \<longrightarrow> k < length evs \<longrightarrow> evs ! k \<noteq> Called i op (Inr (Sent t)))"

lemma last_start_append:
  assumes "last_start evs i j cmd" and "\<And>t. ev \<noteq> Called i op (Inr (Sent t))"
    and "\<And>op' t. ev = Called i op' (Inr (Sent t)) \<Longrightarrow> op' = op"
  shows "last_start (evs @ [ev]) i j cmd"
  using assms by (auto simp: last_start_def nth_append less_Suc_eq)

lemma last_start_handle:
  assumes "last_start evs i j cmd"
  shows "last_start (evs @ [Exported a x]) i j cmd" "last_start (evs @ [BuiltBitbox a network y]) i j cmd"
    "last_start (evs @ [BuiltColdcard a y]) i j cmd"
  using assms by (auto simp: last_start_def nth_append less_Suc_eq)

lemma last_start_new: "last_start (evs @ [Called i (Op (StartOp cmd)) (Inr (Sent t))]) i (length evs) cmd"
  by (simp add: last_start_def)

lemma started_not_sent:
  "session_call C F sop s d = (s', d', r) \<Longrightarrow> ses_started s \<Longrightarrow> r \<noteq> Inr (Sent t)"
  by (cases sop) (auto simp: result_simps start_session_def)

lemma traced_command:
  assumes "host_trace C F N engine_new evs s" and "interps s i = Some p"
    and "live_session p = Some ses" and "ses_started ses"
  shows "\<exists>j cmd. last_start evs i j cmd \<and> started_with C cmd ses"
  using assms
proof (induction arbitrary: p ses rule: host_trace.induct)
  case (trace_init s)
  then show ?case by (simp add: host_init_def)
next
  case (trace_other evs s t)
  then have "interps s i = Some p" unfolding unrecorded_def starts_nothing_def by blast
  with trace_other show ?case by blast
next
  case (trace_export evs s a h r)
  then show ?case using last_start_handle(1) by fastforce
next
  case (trace_bitbox evs s a i' network d p')
  then have "interps s i = Some p"
    using new_bitbox_startable [OF trace_bitbox.hyps(4)] by (auto simp: startable_def split: if_splits)
  with trace_bitbox show ?case using last_start_handle(2) by blast
next
  case (trace_bitbox_refused evs s a network d e)
  then show ?case using last_start_handle(2) by fastforce
next
  case (trace_coldcard evs s a i' d p')
  then have "interps s i = Some p"
    using new_coldcard_startable [OF trace_coldcard.hyps(4)] by (auto simp: startable_def split: if_splits)
  with trace_coldcard show ?case using last_start_handle(3) by blast
next
  case (trace_coldcard_refused evs s a d e)
  then show ?case using last_start_handle(3) by fastforce
next
  case (trace_call evs s i' p0 op p' d r)
  show ?case
  proof (cases "i' = i")
    case False
    with trace_call.prems trace_call.IH [of p ses] obtain j cmd
      where "last_start evs i j cmd" "started_with C cmd ses" by auto
    with False show ?thesis using last_start_append [of evs i j cmd "Called i' op r" op] by blast
  next
    case True
    with trace_call.prems have live: "live_session p' = Some ses" by simp
    from call_stays_live [OF trace_call.hyps(3) live] trace_call.prems(3) obtain sop s1
      where op: "op = Op sop" and s1: "live_session p0 = Some s1"
        and c: "session_call C F sop s1 (devices s) = (ses, d, r)"
        and out: "\<not> (\<exists>e. r = Inl e \<and> \<not> is_bad_state e)" by blast
    from session_call_started [OF c trace_call.prems(3) out]
    consider (old) "ses_started s1" "\<forall>cmd. started_with C cmd s1 \<longrightarrow> started_with C cmd ses"
      | (new) cmd t where "sop = StartOp cmd" "r = Inr (Sent t)" "started_with C cmd ses"
      by blast
    then show ?thesis
    proof cases
      case old
      from trace_call.IH [of p0 s1] trace_call.hyps(2) True s1 old obtain j cmd
        where "last_start evs i j cmd" "started_with C cmd ses" by blast
      moreover have "r \<noteq> Inr (Sent t)" for t by (rule started_not_sent [OF c old(1)])
      ultimately show ?thesis
        using last_start_append [of evs i j cmd "Called i' op r" op] by blast
    next
      case new
      with True op last_start_new [of evs i] show ?thesis by blast
    qed
  qed
qed

lemma end_started:
  assumes "host_trace C F N engine_new evs s" and "interps s i = Some p"
    and "interp_call C F EndOp p (devices s) = (p', d, Inr (Ended resp))"
  shows "\<exists>j cmd ses. last_start evs i j cmd \<and> live_session p = Some ses \<and> started_with C cmd ses
    \<and> interp_end C F p (devices s) = (p', d, Inr resp)"
proof -
  have "end": "interp_end C F p (devices s) = (p', d, Inr resp)"
    using assms(3) by (simp add: result_simps)
  obtain ses where ses: "live_session p = Some ses"
    using assms(3) dead_interp_call [of p C F EndOp "devices s"] by (cases "live_session p") auto
  have "wf_interp p"
    using host_system.reachable_inv [OF traced_reachable [OF assms(1)]] assms(2)
    by (simp add: host_inv_def)
  then have "ses_started ses"
    using end_result [OF ses "end"] ses by (auto simp: wf_interp_def live_session_eq wf_session_def)
  with traced_command [OF assms(1, 2) ses] ses "end" show ?thesis by blast
qed

section \<open>What a result stands for, over all histories\<close>

text \<open>
  C1: signing end to end. Whatever a host did before, with however many objects, when \<open>end\<close> on an
  interpreter returns a signed PSBT, the last command started on that interpreter was a
  \<open>SignPsbt\<close>, and of the PSBT it carried the result keeps: the unsigned transaction (or else the
  two transactions are a collision of \<open>compute_wtxid\<close>, which is what the code compares); on every
  input, each signature that was there, in its field or, once the input is finalized, by its
  exact bytes in the final witness or scriptSig; each final field that was there; and no
  signature is new in a signature field in another mode than the request asked for. Stacks that
  appear only in a final field are not decoded: of them nothing more is said, nor checked.
\<close>

theorem signed_result_faithful:
  assumes "sighash_ok C" and "host_trace C F N engine_new evs s" and "interps s i = Some p"
    and "interp_call C F EndOp p (devices s) = (p', d, Inr (Ended (HwiSignedPsbt text)))"
  shows "\<exists>j input pol request result. last_start evs i j (SignPsbt input pol)
    \<and> decode_psbt C input = Inr request \<and> text = encode_psbt C result
    \<and> (ps_unsigned_tx result = ps_unsigned_tx request
       \<or> wtxid_collision C (ps_unsigned_tx request) (ps_unsigned_tx result))
    \<and> list_all2 (input_faithful C) (ps_inputs request) (ps_inputs result)"
  using end_started [OF assms(2-4)] signed_end [OF assms(1)] unfolding signing_faithful_def by blast

text \<open>
  C15: a result answers the command. Over all histories, what \<open>end\<close> returns is of the response
  kind of the last command started on that interpreter, with one exception: when the core ends
  with a session key on an interpreter that leases a Coldcard, the code reports the task as
  done, whatever the command was. (The comment on \<open>Expect\<close> knows that answer for \<open>Unlock\<close> only.)
\<close>

theorem result_answers_command:
  assumes "host_trace C F N engine_new evs s" and "interps s i = Some p"
    and "interp_call C F EndOp p (devices s) = (p', d, Inr (Ended resp))"
  shows "\<exists>j cmd ses. last_start evs i j cmd \<and> live_session p = Some ses
    \<and> (answers cmd resp
       \<or> (\<exists>h key. ses_lease ses = LeaseColdcard h
            \<and> snd (inner_end F (ses_inner ses) (devices s)) = Inr (RespEncryptionKey key))
         \<and> resp = HwiTaskDone)"
proof -
  from end_started [OF assms] obtain j cmd ses where j: "last_start evs i j cmd"
    and ses: "live_session p = Some ses" and st: "started_with C cmd ses"
    and e: "interp_end C F p (devices s) = (p', d, Inr resp)" by blast
  have "ses_expect ses = expected_of cmd"
    using st by (auto simp: started_with_def dest: plan_expect_of)
  then have "end_response C ses (Inr response) = Inr resp \<Longrightarrow> answers cmd resp" for response
    by (simp add: end_response_ok expected_answers)
  then show ?thesis using end_result [OF ses e] j ses by blast
qed

subsection \<open>A history with a signature\<close>

definition sample_calls :: "call_event list" where
  "sample_calls = [Called 8 (Op (StartOp (SignPsbt sample_text None))) (Inr (Sent sample_transmit)),
     Called 8 (Op (ExchangeOp [1])) (Inr (Advanced None))]"

definition sample_history :: "call_event list" where
  "sample_history = BuiltBitbox 4 Regtest (Inr 7) # sample_calls"

definition sample_signer :: "core_command option interp" where
  "sample_signer = new_mutex (Some (sample_running\<lparr>ses_finished := True\<rparr>))"

definition sample_host4 :: "(core_command option, noise_config_data, nat) host" where
  "sample_host4 = sample_host3\<lparr>interps := (interps sample_host3)(8 \<mapsto> sample_signer)\<rparr>"

abbreviation sample_trace ::
    "call_event list \<Rightarrow> (core_command option, noise_config_data, nat) host \<Rightarrow> bool" where
  "sample_trace \<equiv> host_trace sample_crates sample_families sample_noise length"

lemma sample_host3_trace: "sample_trace [BuiltBitbox 4 Regtest (Inr 7)] sample_host3"
proof -
  have "sample_trace [] sample_host1"
    by (rule trace_other [OF trace_init sample_host_steps(2)])
      (simp_all add: sample_host_steps(1) same_interps_unrecorded sample_host1_def)
  from trace_bitbox [OF this _ _ sample_bitbox_made, of 7]
  have "sample_trace [BuiltBitbox 4 Regtest (Inr 7)] sample_host2"
    by (simp add: sample_host2_def) (simp add: sample_host1_def sample_host0_def)
  then show ?thesis
  proof (rule trace_other [OF _ sample_host_steps(4)])
    show "unrecorded sample_host2 sample_host3"
      by (rule owns_nothing_unrecorded [of sample_families "new_jade sample_families Regtest"])
        (auto simp: owns_nothing_def sample_host3_def)
  qed
qed

lemma sample_history_trace: "sample_trace sample_history sample_host4"
proof -
  let ?s = "sample_host3\<lparr>devices := devices sample_host3,
    interps := (interps sample_host3)(8 \<mapsto> new_mutex (Some sample_running))\<rparr>"
  have jade: "interps sample_host3 8 = Some (fst sample_state)"
    by (simp add: sample_host3_interps sample_state_def)
  have "sample_trace ([BuiltBitbox 4 Regtest (Inr 7)]
      @ [Called 8 (Op (StartOp (SignPsbt sample_text None))) (Inr (Sent sample_transmit))]) ?s"
    by (rule trace_call [OF sample_host3_trace jade sample_run_start])
  then have "sample_trace (([BuiltBitbox 4 Regtest (Inr 7)]
      @ [Called 8 (Op (StartOp (SignPsbt sample_text None))) (Inr (Sent sample_transmit))])
      @ [Called 8 (Op (ExchangeOp [1])) (Inr (Advanced None))])
      (?s\<lparr>devices := devices sample_host3, interps := (interps ?s)(8 \<mapsto> sample_signer)\<rparr>)"
    unfolding sample_signer_def by (rule trace_call) (simp, simp only: sample_run_exchange, simp)
  then show ?thesis by (simp add: sample_history_def sample_calls_def sample_host4_def)
qed

lemma sample_request: "decode_psbt sample_crates input = Inr request \<Longrightarrow> request = sample_psbt"
  by (auto simp: decode_psbt_def sample_crates_def result_simps split: if_splits)

text \<open>In the sample no other transaction has the identifier of the one that was sent.\<close>

theorem signed_result_faithful_witness:
  "\<exists>j input pol request result. last_start sample_history 8 j (SignPsbt input pol)
    \<and> decode_psbt sample_crates input = Inr request \<and> sample_text = encode_psbt sample_crates result
    \<and> ps_unsigned_tx result = ps_unsigned_tx request
    \<and> list_all2 (input_faithful sample_crates) (ps_inputs request) (ps_inputs result)"
proof -
  have signer: "interps sample_host4 8 = Some sample_signer" by (simp add: sample_host4_def)
  note signed = signed_result_faithful [OF sample_sighash_ok sample_history_trace signer
      sample_run_end [folded sample_signer_def]]
  have "\<not> wtxid_collision sample_crates (ps_unsigned_tx sample_psbt) t" for t
    using sample_no_collision by (simp add: sample_psbt_def)
  with signed sample_request show ?thesis by metis
qed

theorem result_answers_command_witness:
  "\<exists>j cmd ses. last_start sample_history 8 j cmd \<and> live_session sample_signer = Some ses
    \<and> answers cmd (HwiSignedPsbt sample_text)"
proof -
  have signer: "interps sample_host4 8 = Some sample_signer" by (simp add: sample_host4_def)
  from result_answers_command [OF sample_history_trace signer sample_run_end [folded sample_signer_def]]
  show ?thesis by auto
qed

end
