(* ===== verification/Threads.thy ===== *)
theory Threads
  imports Leases
begin

text \<open>
  The exported objects under threads. The host may call any object from any thread; what keeps
  the calls apart is the mutex around each session, the flag of each leased cell and the mutex
  around each pairing-code slot. Here every access to one of them is a step of its own, so a
  call is a path of positions through its code, and threads interleave between any two of them.
  The theorems say that nobody ever shares a borrowed cell, and that the locks cannot deadlock.
\<close>

section \<open>Positions\<close>

text \<open>
  \<open>Closing\<close> is a session being dropped inside a call: moved out by \<open>end\<close>, or cleared by
  \<open>with_session\<close> after a protocol failure. The optional handle is the session's lease.
\<close>

datatype session_call_kind = RunCall | EndCall

datatype position =
    Idle
  | Exporting nat                       \<comment> \<open>\<open>Leased::with\<close>, between its swap and its store\<close>
  | Building nat                        \<comment> \<open>a constructor after its swap\<close>
  | Waiting nat session_call_kind       \<comment> \<open>before \<open>session.lock()\<close>\<close>
  | Locked nat session_call_kind        \<comment> \<open>the session's guard is held\<close>
  | Running nat "nat option"            \<comment> \<open>\<open>f(session)\<close>: the core on the borrowed cell\<close>
  | HookWait nat nat                    \<comment> \<open>the pairing hook before \<open>sink.lock()\<close>\<close>
  | HookHold nat nat                    \<comment> \<open>the pairing hook with the slot's guard\<close>
  | Closing nat "nat option"            \<comment> \<open>\<open>inner.end()\<close> or the drop of a failed session\<close>
  | Leaving nat                         \<comment> \<open>the session's guard about to be dropped\<close>
  | Dropping nat                        \<comment> \<open>the last reference to an interpreter is gone\<close>
  | TakeWait nat                        \<comment> \<open>\<open>take_pairing_code\<close> before its lock\<close>
  | TakeHold nat                        \<comment> \<open>\<open>take_pairing_code\<close> with the slot's guard\<close>

record thread_sys =
  flags :: "nat \<Rightarrow> bool"
  objects :: "nat set"
  slots :: "nat \<rightharpoonup> nat option"
  session_mutex :: "nat \<Rightarrow> nat option"
  mutex_poisoned :: "nat \<Rightarrow> bool"
  code_mutex :: "nat \<Rightarrow> nat option"
  at :: "nat \<Rightarrow> position"

text \<open>The interpreter a position keeps alive, and the lock on it or on a code slot it holds.\<close>

fun refers :: "position \<Rightarrow> nat option" where
  "refers (Waiting i k) = Some i"
| "refers (Locked i k) = Some i"
| "refers (Running i l) = Some i"
| "refers (HookWait i h) = Some i"
| "refers (HookHold i h) = Some i"
| "refers (Closing i l) = Some i"
| "refers (Leaving i) = Some i"
| "refers _ = None"

fun in_lock :: "position \<Rightarrow> nat option" where
  "in_lock (Locked i k) = Some i"
| "in_lock (Running i l) = Some i"
| "in_lock (HookWait i h) = Some i"
| "in_lock (HookHold i h) = Some i"
| "in_lock (Closing i l) = Some i"
| "in_lock (Leaving i) = Some i"
| "in_lock _ = None"

fun in_code :: "position \<Rightarrow> nat option" where
  "in_code (HookHold i h) = Some h"
| "in_code (TakeHold h) = Some h"
| "in_code _ = None"

fun store_false :: "nat option \<Rightarrow> (nat \<Rightarrow> bool) \<Rightarrow> nat \<Rightarrow> bool" where
  "store_false None f = f"
| "store_false (Some h) f = f(h := False)"

text \<open>The session a position has a reference into.\<close>

fun runs :: "position \<Rightarrow> (nat \<times> nat option) option" where
  "runs (Running i l) = Some (i, l)"
| "runs (HookWait i h) = Some (i, Some h)"
| "runs (HookHold i h) = Some (i, Some h)"
| "runs _ = None"

lemma runs_in_lock: "runs p = Some (i, l) \<Longrightarrow> in_lock p = Some i"
  by (cases p) simp_all

lemma in_lock_refers: "in_lock p = Some i \<Longrightarrow> refers p = Some i"
  by (cases p) simp_all

section \<open>Steps\<close>

abbreviation goes :: "nat \<Rightarrow> position \<Rightarrow> thread_sys \<Rightarrow> thread_sys" where
  "goes t p s \<equiv> s\<lparr>at := (at s)(t := p)\<rparr>"

text \<open>One access by thread \<open>t\<close>.\<close>

inductive thread_step :: "nat \<Rightarrow> thread_sys \<Rightarrow> thread_sys \<Rightarrow> bool" for t where
  \<comment> \<open>\<open>Leased::with\<close>\<close>
  export_swap: "\<lbrakk>at s t = Idle; \<not> flags s h\<rbrakk> \<Longrightarrow>
     thread_step t s (goes t (Exporting h) (s\<lparr>flags := (flags s)(h := True)\<rparr>))"
| export_store: "at s t = Exporting h \<Longrightarrow>
     thread_step t s (goes t Idle (s\<lparr>flags := (flags s)(h := False)\<rparr>))"
  \<comment> \<open>a failed swap, of \<open>with\<close> or of a constructor\<close>
| refused: "\<lbrakk>at s t = Idle; flags s h\<rbrakk> \<Longrightarrow> thread_step t s s"
  \<comment> \<open>the constructors\<close>
| build_swap: "\<lbrakk>at s t = Idle; \<not> flags s h\<rbrakk> \<Longrightarrow>
     thread_step t s (goes t (Building h) (s\<lparr>flags := (flags s)(h := True)\<rparr>))"
| publish: "\<lbrakk>at s t = Building h; i \<notin> objects s\<rbrakk> \<Longrightarrow>
     thread_step t s (goes t Idle (s\<lparr>objects := insert i (objects s),
       slots := (slots s)(i \<mapsto> Some h), mutex_poisoned := (mutex_poisoned s)(i := False)\<rparr>))"
| publish_free: "\<lbrakk>at s t = Idle; i \<notin> objects s\<rbrakk> \<Longrightarrow>
     thread_step t s (s\<lparr>objects := insert i (objects s),
       slots := (slots s)(i \<mapsto> None), mutex_poisoned := (mutex_poisoned s)(i := False)\<rparr>)"
  \<comment> \<open>\<open>start\<close>, \<open>exchange\<close> and \<open>end\<close>\<close>
| enter: "\<lbrakk>at s t = Idle; i \<in> objects s\<rbrakk> \<Longrightarrow> thread_step t s (goes t (Waiting i k) s)"
| take_lock: "\<lbrakk>at s t = Waiting i k; session_mutex s i = None\<rbrakk> \<Longrightarrow>
     thread_step t s
       (goes t (Locked i k) (s\<lparr>session_mutex := (session_mutex s)(i \<mapsto> t)\<rparr>))"
| dead: "\<lbrakk>at s t = Locked i k; mutex_poisoned s i \<or> slots s i = None\<rbrakk> \<Longrightarrow>
     thread_step t s (goes t (Leaving i) s)"
| run: "\<lbrakk>at s t = Locked i RunCall; \<not> mutex_poisoned s i; slots s i = Some l\<rbrakk> \<Longrightarrow>
     thread_step t s (goes t (Running i l) s)"
| take_session: "\<lbrakk>at s t = Locked i EndCall; \<not> mutex_poisoned s i; slots s i = Some l\<rbrakk> \<Longrightarrow>
     thread_step t s (goes t (Closing i l) (s\<lparr>slots := (slots s)(i := None)\<rparr>))"
| returned: "at s t = Running i l \<Longrightarrow> thread_step t s (goes t (Leaving i) s)"
| failed: "at s t = Running i l \<Longrightarrow>
     thread_step t s (goes t (Closing i l) (s\<lparr>slots := (slots s)(i := None)\<rparr>))"
| panicked: "at s t = Running i l \<Longrightarrow>
     thread_step t s (goes t (Leaving i) (s\<lparr>mutex_poisoned := (mutex_poisoned s)(i := True)\<rparr>))"
| hook: "at s t = Running i (Some h) \<Longrightarrow> thread_step t s (goes t (HookWait i h) s)"
| hook_lock: "\<lbrakk>at s t = HookWait i h; code_mutex s h = None\<rbrakk> \<Longrightarrow>
     thread_step t s (goes t (HookHold i h) (s\<lparr>code_mutex := (code_mutex s)(h \<mapsto> t)\<rparr>))"
| hook_unlock: "at s t = HookHold i h \<Longrightarrow>
     thread_step t s (goes t (Running i (Some h)) (s\<lparr>code_mutex := (code_mutex s)(h := None)\<rparr>))"
| close: "at s t = Closing i l \<Longrightarrow>
     thread_step t s (goes t (Leaving i) (s\<lparr>flags := store_false l (flags s)\<rparr>))"
| close_panicked: "at s t = Closing i l \<Longrightarrow>
     thread_step t s (goes t (Leaving i) (s\<lparr>flags := store_false l (flags s),
       mutex_poisoned := (mutex_poisoned s)(i := True)\<rparr>))"
| drop_guard: "at s t = Leaving i \<Longrightarrow>
     thread_step t s (goes t Idle (s\<lparr>session_mutex := (session_mutex s)(i := None)\<rparr>))"
  \<comment> \<open>the last reference\<close>
| drop_object: "\<lbrakk>at s t = Idle; i \<in> objects s; \<forall>u. refers (at s u) \<noteq> Some i; slots s i = Some (Some h)\<rbrakk> \<Longrightarrow>
     thread_step t s (goes t (Dropping h)
       (s\<lparr>objects := objects s - {i}, slots := (slots s)(i := None)\<rparr>))"
| drop_free: "\<lbrakk>at s t = Idle; i \<in> objects s; \<forall>u. refers (at s u) \<noteq> Some i;
     slots s i \<in> {None, Some None}\<rbrakk> \<Longrightarrow>
     thread_step t s (s\<lparr>objects := objects s - {i}, slots := (slots s)(i := None)\<rparr>)"
| drop_store: "at s t = Dropping h \<Longrightarrow>
     thread_step t s (goes t Idle (s\<lparr>flags := (flags s)(h := False)\<rparr>))"
  \<comment> \<open>\<open>take_pairing_code\<close>\<close>
| take_enter: "at s t = Idle \<Longrightarrow> thread_step t s (goes t (TakeWait h) s)"
| code_lock: "\<lbrakk>at s t = TakeWait h; code_mutex s h = None\<rbrakk> \<Longrightarrow>
     thread_step t s (goes t (TakeHold h) (s\<lparr>code_mutex := (code_mutex s)(h \<mapsto> t)\<rparr>))"
| code_unlock: "at s t = TakeHold h \<Longrightarrow>
     thread_step t s (goes t Idle (s\<lparr>code_mutex := (code_mutex s)(h := None)\<rparr>))"

inductive_cases thread_stepE: "thread_step t s s'"

definition some_step :: "thread_sys \<Rightarrow> thread_sys \<Rightarrow> bool" where
  "some_step s s' \<longleftrightarrow> (\<exists>t. thread_step t s s')"

definition threads_init :: "thread_sys \<Rightarrow> bool" where
  "threads_init s \<longleftrightarrow> (\<forall>h. \<not> flags s h) \<and> objects s = {} \<and> slots s = Map.empty
     \<and> (\<forall>i. session_mutex s i = None) \<and> (\<forall>h. code_mutex s h = None) \<and> (\<forall>t. at s t = Idle)"

section \<open>Who owns a leased cell\<close>

text \<open>A lease is owned by a thread's stack frame, or by a session in its slot.\<close>

datatype owner = Frame nat | Object nat

fun frame_lease :: "position \<Rightarrow> nat option" where
  "frame_lease (Exporting h) = Some h"
| "frame_lease (Building h) = Some h"
| "frame_lease (Closing i l) = l"
| "frame_lease (Dropping h) = Some h"
| "frame_lease _ = None"

fun owner_lease :: "thread_sys \<Rightarrow> owner \<rightharpoonup> nat" where
  "owner_lease s (Frame t) = frame_lease (at s t)"
| "owner_lease s (Object i) = Option.bind (slots s i) (\<lambda>l. l)"

text \<open>The flags are a table of leases.\<close>

definition flag_swap :: "nat \<Rightarrow> (nat \<Rightarrow> bool) \<Rightarrow> (nat \<Rightarrow> bool) option" where
  "flag_swap h f = (if f h then None else Some (f(h := True)))"

definition flag_held :: "nat \<Rightarrow> (nat \<Rightarrow> bool) \<Rightarrow> bool" where
  "flag_held h f = f h"

lemma flag_held_simp [simp]: "flag_held h f \<longleftrightarrow> f h"
  by (simp add: flag_held_def)

interpretation flag_table: lease_table flag_swap "\<lambda>h f. f(h := False)" flag_held
  by unfold_locales (auto simp: flag_swap_def split: if_splits)

text \<open>An owner hands its lease to another one that has none.\<close>

lemma books_transfer:
  assumes "lease_books kheld own f" and "own b = None" and "a \<noteq> b"
  shows "lease_books kheld (own(a := None, b := own a)) f"
  using assms unfolding lease_books_def
  by (intro conjI allI) (simp, metis option.distinct(1), auto split: if_splits)

text \<open>
  The books of a kind of mutex: a thread at a position inside the lock is its owner, and the
  owner is there.
\<close>

definition mutex_books :: "('p \<Rightarrow> 'i option) \<Rightarrow> ('t \<Rightarrow> 'p) \<Rightarrow> ('i \<Rightarrow> 't option) \<Rightarrow> bool" where
  "mutex_books inside a m \<longleftrightarrow> (\<forall>t i. inside (a t) = Some i \<longleftrightarrow> m i = Some t)"

lemma mutex_stay:
  "mutex_books inside a m \<Longrightarrow> inside p = inside (a t) \<Longrightarrow> mutex_books inside (a(t := p)) m"
  by (auto simp: mutex_books_def)

lemma mutex_lock:
  "mutex_books inside a m \<Longrightarrow> inside (a t) = None \<Longrightarrow> inside p = Some i \<Longrightarrow> m i = None \<Longrightarrow>
     mutex_books inside (a(t := p)) (m(i \<mapsto> t))"
  by (auto simp: mutex_books_def) (metis option.distinct(1))+

lemma mutex_unlock:
  "mutex_books inside a m \<Longrightarrow> inside (a t) = Some i \<Longrightarrow> inside p = None \<Longrightarrow>
     mutex_books inside (a(t := p)) (m(i := None))"
  unfolding mutex_books_def by (simp, metis option.inject)

definition threads_inv :: "thread_sys \<Rightarrow> bool" where
  "threads_inv s \<longleftrightarrow> lease_books flag_held (owner_lease s) (flags s)
     \<and> mutex_books in_lock (at s) (session_mutex s)
     \<and> mutex_books in_code (at s) (code_mutex s)
     \<and> (\<forall>t i l. runs (at s t) = Some (i, l) \<longrightarrow> slots s i = Some l)
     \<and> (\<forall>t i. refers (at s t) = Some i \<longrightarrow> i \<in> objects s)
     \<and> dom (slots s) \<subseteq> objects s"

lemma threads_invD:
  assumes "threads_inv s"
  shows "lease_books flag_held (owner_lease s) (flags s)"
    and "mutex_books in_lock (at s) (session_mutex s)"
    and "mutex_books in_code (at s) (code_mutex s)"
    and "runs (at s t) = Some (i, l) \<Longrightarrow> slots s i = Some l"
    and "refers (at s t) = Some i \<Longrightarrow> i \<in> objects s"
    and "i \<notin> objects s \<Longrightarrow> slots s i = None"
  using assms by (auto simp: threads_inv_def)

section \<open>The invariant\<close>

lemma owner_cases:
  "(\<And>t. f (Frame t) = g (Frame t)) \<Longrightarrow> (\<And>i. f (Object i) = g (Object i)) \<Longrightarrow> f w = g w"
  by (cases w) simp_all

lemmas owner_ext = ext [OF owner_cases]

lemma books_step:
  assumes "thread_step t s s'" and inv: "threads_inv s"
  shows "lease_books flag_held (owner_lease s') (flags s')"
proof -
  let ?own = "owner_lease s"
  note books = threads_invD(1) [OF inv] and free = threads_invD(6) [OF inv]
  have same: ?thesis if "owner_lease s' = ?own" "flags s' = flags s"
    using books that by simp
  have acq: ?thesis if "owner_lease s' = ?own(Frame t \<mapsto> h)" "flags s' = (flags s)(h := True)"
      "\<not> flags s h" "?own (Frame t) = None" for h
    using flag_table.books_acquire [OF books, of h _ "Frame t"] that by (simp add: flag_swap_def)
  have rel: ?thesis if "owner_lease s' = ?own(Frame t := None)" "?own (Frame t) = l"
      "flags s' = store_false l (flags s)" for l
    using flag_table.books_release [OF books, of "Frame t"]
      flag_table.books_no_lease [OF books, of "Frame t"] that
    by (cases l) simp_all
  have move: ?thesis if "owner_lease s' = ?own(a := None, b := ?own a)" "flags s' = flags s"
      "?own b = None" "a \<noteq> b" for a b
    using books_transfer [OF books that(3, 4)] that by simp
  from assms(1) show ?thesis
  proof cases
    case (export_swap h)
    then show ?thesis by (intro acq [of h] owner_ext) auto
  next
    case (export_store h)
    then show ?thesis by (intro rel [of "Some h"] owner_ext) auto
  next
    case (build_swap h)
    then show ?thesis by (intro acq [of h] owner_ext) auto
  next
    case (publish h i)
    with free [of i] show ?thesis by (intro move [of "Frame t" "Object i"] owner_ext) auto
  next
    case (publish_free i)
    with free [of i] show ?thesis by (intro same owner_ext) auto
  next
    case (take_session i l)
    then show ?thesis by (intro move [of "Object i" "Frame t"] owner_ext) auto
  next
    case (failed i l)
    then have "slots s i = Some l" using threads_invD(4) [OF inv, of t i l] by simp
    with failed show ?thesis by (intro move [of "Object i" "Frame t"] owner_ext) auto
  next
    case (close i l)
    then show ?thesis by (intro rel [of l] owner_ext) auto
  next
    case (close_panicked i l)
    then show ?thesis by (intro rel [of l] owner_ext) auto
  next
    case (drop_object i h)
    then show ?thesis by (intro move [of "Object i" "Frame t"] owner_ext) auto
  next
    case (drop_store h)
    then show ?thesis by (intro rel [of "Some h"] owner_ext) auto
  qed (rule same; (rule owner_ext)?; auto)+
qed

lemma locks_step:
  assumes "thread_step t s s'" and inv: "threads_inv s"
  shows "mutex_books in_lock (at s') (session_mutex s')"
  using assms(1) threads_invD(2) [OF inv]
  by cases (auto intro: mutex_stay mutex_lock mutex_unlock)

lemma codes_step:
  assumes "thread_step t s s'" and inv: "threads_inv s"
  shows "mutex_books in_code (at s') (code_mutex s')"
  using assms(1) threads_invD(3) [OF inv]
  by cases (auto intro: mutex_stay mutex_lock mutex_unlock)

lemma runs_refers: "runs p = Some (i, l) \<Longrightarrow> refers p = Some i"
  by (blast intro: in_lock_refers runs_in_lock)

lemma same_lock:
  assumes "threads_inv s" and "in_lock (at s t) = Some i" and "in_lock (at s u) = Some i"
  shows "u = t"
  using threads_invD(2) [OF assms(1)] assms(2, 3) by (auto simp: mutex_books_def)

text \<open>A step changes the slot of an interpreter only when no other thread is running in it.\<close>

lemma slots_step:
  assumes step: "thread_step t s s'" and inv: "threads_inv s"
    and other: "u \<noteq> t" and run: "runs (at s u) = Some (i, l)"
  shows "slots s' i = slots s i \<and> at s' u = at s u"
proof -
  have obj: "i \<in> objects s" using threads_invD(5) [OF inv] run by (blast dest: runs_refers)
  have "in_lock (at s t) \<noteq> Some i"
    using same_lock [OF inv _ runs_in_lock [OF run], of t] other by blast
  note idle = this
  have "refers (at s u) = Some i" using run by (rule runs_refers)
  with step show ?thesis
    using other obj idle by cases auto
qed

lemma runs_step:
  assumes step: "thread_step t s s'" and inv: "threads_inv s" and run: "runs (at s' u) = Some (i, l)"
  shows "slots s' i = Some l"
proof (cases "u = t")
  case False
  from step have "at s' u = at s u" using False by cases auto
  with run have "runs (at s u) = Some (i, l)" by simp
  with slots_step [OF step inv False this] threads_invD(4) [OF inv this] show ?thesis by simp
next
  case True
  from step run threads_invD(4) [OF inv, of t] show ?thesis
    unfolding True by cases auto
qed

lemma refers_step:
  assumes step: "thread_step t s s'" and inv: "threads_inv s" and ref: "refers (at s' u) = Some i"
  shows "i \<in> objects s'"
proof -
  have old: "refers (at s v) = Some j \<Longrightarrow> j \<in> objects s" for v j
    using threads_invD(5) [OF inv] by blast
  from step show ?thesis
    using ref old [of t] old [of u] by cases (auto split: if_splits)
qed

lemma slots_dom_step:
  assumes "thread_step t s s'" and inv: "threads_inv s"
  shows "dom (slots s') \<subseteq> objects s'"
proof -
  have "dom (slots s) \<subseteq> objects s" using inv by (simp add: threads_inv_def)
  with assms(1) show ?thesis by cases auto
qed

interpretation threads: invariant_system threads_init some_step threads_inv
proof
  show "threads_init s \<Longrightarrow> threads_inv s" for s
    by (auto simp: threads_init_def threads_inv_def mutex_books_def lease_books_def
        elim!: owner_lease.elims)
  show "threads_inv s \<Longrightarrow> some_step s s' \<Longrightarrow> threads_inv s'" for s s'
    unfolding some_step_def threads_inv_def [of s']
    by (blast intro: books_step locks_step codes_step runs_step refers_step
        dest: slots_dom_step)
qed

text \<open>A thread that runs a BitBox command while another one wants its pairing code.\<close>

definition sample_threads0 :: thread_sys where
  "sample_threads0 = \<lparr>flags = (\<lambda>_. False), objects = {}, slots = Map.empty,
     session_mutex = (\<lambda>_. None), mutex_poisoned = (\<lambda>_. False), code_mutex = (\<lambda>_. None),
     at = (\<lambda>_. Idle)\<rparr>"

definition sample_threads1 :: thread_sys where
  "sample_threads1 = goes 3 (Building 4) (sample_threads0\<lparr>flags := (flags sample_threads0)(4 := True)\<rparr>)"

definition sample_threads2 :: thread_sys where
  "sample_threads2 = goes 3 Idle (sample_threads1\<lparr>objects := insert 7 (objects sample_threads1),
     slots := (slots sample_threads1)(7 \<mapsto> Some 4),
     mutex_poisoned := (mutex_poisoned sample_threads1)(7 := False)\<rparr>)"

definition sample_threads3 :: thread_sys where
  "sample_threads3 = goes 3 (Locked 7 RunCall) ((goes 3 (Waiting 7 RunCall) sample_threads2)
     \<lparr>session_mutex := (session_mutex sample_threads2)(7 \<mapsto> 3)\<rparr>)"

definition sample_threads4 :: thread_sys where
  "sample_threads4 = goes 5 (TakeWait 4) (goes 3 (Running 7 (Some 4)) sample_threads3)"

lemma sample_threads_reachable: "reachable threads_init some_step sample_threads4"
proof -
  have go: "reachable threads_init some_step b"
    if "reachable threads_init some_step a" "thread_step t a b" for a b t
    using that by (meson reachable_step some_step_def)
  have "reachable threads_init some_step sample_threads0"
    by (rule reachable_init) (simp add: threads_init_def sample_threads0_def)
  then have "reachable threads_init some_step sample_threads1"
    by (rule go) (unfold sample_threads1_def, rule build_swap, simp_all add: sample_threads0_def)
  then have "reachable threads_init some_step sample_threads2"
    by (rule go) (unfold sample_threads2_def, rule publish [where h = 4],
      simp_all add: sample_threads1_def sample_threads0_def)
  then have "reachable threads_init some_step (goes 3 (Waiting 7 RunCall) sample_threads2)"
    by (rule go) (rule enter, simp_all add: sample_threads2_def sample_threads1_def)
  then have "reachable threads_init some_step sample_threads3"
    by (rule go, unfold sample_threads3_def)
      (use take_lock [of "goes 3 (Waiting 7 RunCall) sample_threads2" 3 7 RunCall] in
        \<open>simp add: sample_threads2_def sample_threads1_def sample_threads0_def\<close>)
  then have "reachable threads_init some_step (goes 3 (Running 7 (Some 4)) sample_threads3)"
    by (rule go) (rule run, simp_all add: sample_threads3_def sample_threads2_def
      sample_threads1_def sample_threads0_def)
  then show ?thesis
    by (rule go, unfold sample_threads4_def) (rule take_enter, simp add: sample_threads3_def
      sample_threads2_def sample_threads1_def sample_threads0_def)
qed

lemma sample_threads_at:
  "at sample_threads4 3 = Running 7 (Some 4)" "at sample_threads4 5 = TakeWait 4"
  "objects sample_threads4 = {7}"
  by (simp_all add: sample_threads4_def sample_threads3_def sample_threads2_def
      sample_threads1_def sample_threads0_def)

section \<open>No data race\<close>

text \<open>
  The borrowed cell a position has a live reference into: inside \<open>with\<close>, in a constructor, while
  the core runs on a session that leases it, and while such a session is closed or dropped.
\<close>

fun accesses :: "position \<Rightarrow> nat option" where
  "accesses (Exporting h) = Some h"
| "accesses (Building h) = Some h"
| "accesses (Running i l) = l"
| "accesses (HookWait i h) = Some h"
| "accesses (HookHold i h) = Some h"
| "accesses (Closing i l) = l"
| "accesses (Dropping h) = Some h"
| "accesses _ = None"

lemma access_owned:
  assumes "threads_inv s" and "accesses (at s t) = Some h"
  shows "frame_lease (at s t) = Some h
    \<or> (\<exists>i. in_lock (at s t) = Some i \<and> owner_lease s (Object i) = Some h)"
  using assms(2) threads_invD(4) [OF assms(1), of t]
  by (cases "at s t") auto

lemma access_exclusive:
  assumes inv: "threads_inv s" and "accesses (at s t) = Some h" and "accesses (at s u) = Some h"
  shows "u = t"
proof -
  note one = lease_books_exclusive [OF threads_invD(1) [OF inv]]
  from access_owned [OF inv assms(2)] access_owned [OF inv assms(3)] show ?thesis
    using one [of "Frame t" h] one [of "Object _" h] same_lock [OF inv]
    by (auto) (metis owner.distinct(1) owner.inject(1) owner.inject(2) owner_lease.simps)+
qed

text \<open>
  C11: no data race on a leased cell. However the threads interleave, at most one of them has a
  reference into a cell at any moment, be it through an export, a constructor, a running,
  failing or ending command or a dropped interpreter; the cell's flag is set as long as the
  reference lives, so no compare-and-swap can hand the cell out a second time.
\<close>

theorem leased_cells_race_free:
  assumes "reachable threads_init some_step s" and "accesses (at s t) = Some h"
  shows "flags s h \<and> (\<forall>u. accesses (at s u) = Some h \<longrightarrow> u = t)"
proof -
  from assms(1) have inv: "threads_inv s" by (rule threads.reachable_inv)
  have "\<exists>w. owner_lease s w = Some h"
    using access_owned [OF inv assms(2)] by (metis owner_lease.simps(1))
  with lease_books_held [OF threads_invD(1) [OF inv], of h] have "flags s h" by simp
  with access_exclusive [OF inv assms(2)] show ?thesis by blast
qed

theorem leased_cells_race_free_witness:
  "flags sample_threads4 4 \<and> accesses (at sample_threads4 5) \<noteq> Some 4"
  using leased_cells_race_free [OF sample_threads_reachable, of 3 4]
  by (simp add: sample_threads_at)

section \<open>No deadlock\<close>

text \<open>Positions at which a thread may have to wait for another.\<close>

fun waits :: "thread_sys \<Rightarrow> position \<Rightarrow> bool" where
  "waits s (Waiting i k) = (session_mutex s i \<noteq> None)"
| "waits s (HookWait i h) = (code_mutex s h \<noteq> None)"
| "waits s (TakeWait h) = (code_mutex s h \<noteq> None)"
| "waits s _ = False"

lemma step_or_wait:
  assumes "at s t \<noteq> Idle" and "\<not> waits s (at s t)" and fresh: "\<exists>i. i \<notin> objects s"
  shows "\<exists>s'. thread_step t s s' \<and> at s' t \<noteq> at s t"
proof -
  have go: "thread_step t s s' \<Longrightarrow> at s' t \<noteq> at s t \<Longrightarrow> ?thesis" for s' by blast
  show ?thesis
  proof (cases "at s t")
    case (Locked i k)
    show ?thesis
    proof (cases "mutex_poisoned s i \<or> slots s i = None")
      case True
      from go [OF dead [OF Locked True]] Locked show ?thesis by simp
    next
      case False
      then obtain l where "\<not> mutex_poisoned s i" "slots s i = Some l" by auto
      with Locked go [OF run] go [OF take_session] show ?thesis by (cases k) auto
    qed
  next
    case (Building h)
    from fresh obtain i where "i \<notin> objects s" by blast
    from go [OF publish [OF Building this]] Building show ?thesis by simp
  qed (use assms(1, 2) go [OF export_store] go [OF take_lock] go [OF returned] go [OF hook_lock]
      go [OF hook_unlock] go [OF close] go [OF drop_guard] go [OF drop_store] go [OF code_lock]
      go [OF code_unlock] in auto)
qed

lemma code_holder_steps:
  assumes "threads_inv s" and "code_mutex s h = Some u"
  shows "at s u \<noteq> Idle \<and> \<not> waits s (at s u)"
proof -
  have "in_code (at s u) = Some h"
    using threads_invD(3) [OF assms(1)] assms(2) by (simp add: mutex_books_def)
  then show ?thesis by (cases "at s u") auto
qed

lemma session_holder:
  assumes "threads_inv s" and "session_mutex s i = Some u"
  shows "at s u \<noteq> Idle \<and> (waits s (at s u) \<longrightarrow> (\<exists>h v. code_mutex s h = Some v))"
proof -
  have "in_lock (at s u) = Some i"
    using threads_invD(2) [OF assms(1)] assms(2) by (simp add: mutex_books_def)
  then show ?thesis by (cases "at s u") auto
qed

text \<open>
  C23: no deadlock. In every reachable state in which some call has not returned, some thread
  inside a call can take a step of its own that moves it on: a session's lock is only ever held
  while a code slot's lock is awaited, never the other way round, and leases refuse instead of
  blocking. (An identifier for a new object is always to be had.)
\<close>

theorem threads_never_deadlock:
  assumes "reachable threads_init some_step s" and "at s t \<noteq> Idle" and "\<exists>i. i \<notin> objects s"
  shows "\<exists>u s'. at s u \<noteq> Idle \<and> thread_step u s s' \<and> at s' u \<noteq> at s u"
proof -
  from assms(1) have inv: "threads_inv s" by (rule threads.reachable_inv)
  have go: ?thesis if "at s u \<noteq> Idle" "\<not> waits s (at s u)" for u
    using step_or_wait [OF that assms(3)] that(1) by blast
  have code: ?thesis if "code_mutex s h = Some u" for h u
    using code_holder_steps [OF inv that] go by blast
  have session: ?thesis if "session_mutex s i = Some u" for i u
    using session_holder [OF inv that] go code by blast
  show ?thesis
  proof (cases "waits s (at s t)")
    case True
    then show ?thesis using code session by (cases "at s t") auto
  qed (use go assms(2) in blast)
qed

theorem threads_never_deadlock_witness:
  "\<exists>u s'. at sample_threads4 u \<noteq> Idle \<and> thread_step u sample_threads4 s'
    \<and> at s' u \<noteq> at sample_threads4 u"
  by (rule threads_never_deadlock [OF sample_threads_reachable, of 5])
    (auto simp: sample_threads_at intro!: exI [of _ 8])

end
