(* ===== verification/Concurrency.thy ===== *)
theory Concurrency
  imports Traces Threads
begin

text \<open>
  Calls that overlap. The host of \<open>Host\<close> runs each call of an interpreter in one step. Here the
  calls of many threads interleave: while a call holds the lock of its session, the session and
  the cell it borrows may be in any intermediate state, pairing codes appear and are taken, other
  calls start and finish, and handles are exported, leased and given back, each with its flag set
  first and its work done later. \<open>Linearizable\<close> proves that none of this shows in the history of
  results, with one exception, which is recorded apart: an export or a constructor is refused
  also while another such call on the same handle has the flag up.
\<close>

section \<open>Threads and memory\<close>

text \<open>
  The last four positions hold the flag of a lease: \<open>Leased::with\<close> between swap and store, a
  constructor after its swap, and the drop of an interpreter's session before its store. \<open>CBody\<close>
  remembers what the call found behind the lock, and the memory it ran on. The last number of the
  positions of a call is the length of the history when the call was made.
\<close>

datatype ('m, 'n, 'e) cposition =
    CIdle
  | CWait nat interp_op nat
  | CHeld nat interp_op nat
  | CBody nat interp_op nat "'m interp" "('n, 'e) device_state"
  | CLeave nat interp_op nat "(hwi_error + interp_reply) option"
  | CExport handle
  | CBuildBitbox handle network
  | CBuildColdcard handle
  | CDrop lease_key

record ('m, 'n, 'e) csys =
  memory :: "('m, 'n, 'e) host"
  guard :: "nat \<Rightarrow> nat option"
  pos :: "nat \<Rightarrow> ('m, 'n, 'e) cposition"
  history :: "call_event list"
  busy :: "call_event list"

text \<open>One cell written into a memory, its flag included; a pairing-code slot is not part of it.\<close>

fun put_cell :: "lease_key \<Rightarrow> ('n, 'e) device_state \<Rightarrow> ('n, 'e) device_state \<Rightarrow> ('n, 'e) device_state" where
  "put_cell (NoiseKey h) d m = set_noise h ((noises m h)\<lparr>nh_state := nh_state (noises d h)\<rparr>) m"
| "put_cell (ColdcardKey h) d m =
     set_coldcard h ((coldcards m h)\<lparr>ce_engine := ce_engine (coldcards d h)\<rparr>) m"

definition put_view ::
    "lease_key option \<Rightarrow> ('n, 'e) device_state \<Rightarrow> ('n, 'e) device_state \<Rightarrow> ('n, 'e) device_state" where
  "put_view key d m = (case key of None \<Rightarrow> m | Some k \<Rightarrow> put_cell k d m)"

text \<open>The interpreter a position keeps alive, the lock it holds, and the flag it holds.\<close>

fun keeps :: "('m, 'n, 'e) cposition \<Rightarrow> nat option" where
  "keeps (CWait i op n) = Some i"
| "keeps (CHeld i op n) = Some i"
| "keeps (CBody i op n p d) = Some i"
| "keeps (CLeave i op n r) = Some i"
| "keeps _ = None"

fun locks :: "('m, 'n, 'e) cposition \<Rightarrow> nat option" where
  "locks (CHeld i op n) = Some i"
| "locks (CBody i op n p d) = Some i"
| "locks (CLeave i op n r) = Some i"
| "locks _ = None"

fun body_of :: "('m, 'n, 'e) cposition \<Rightarrow> nat option" where
  "body_of (CBody i op n p d) = Some i"
| "body_of _ = None"

text \<open>The leased cell a position has to itself, by its flag or through the session it is in.\<close>

fun uses :: "('m, 'n, 'e) cposition \<Rightarrow> lease_key option" where
  "uses (CBody i op n p d) = interp_key p"
| "uses (CExport h) = Some (NoiseKey h)"
| "uses (CBuildBitbox h network) = Some (NoiseKey h)"
| "uses (CBuildColdcard h) = Some (ColdcardKey h)"
| "uses (CDrop k) = Some k"
| "uses _ = None"

text \<open>The flag a position holds on its own account, not through a session.\<close>

fun lent :: "('m, 'n, 'e) cposition \<Rightarrow> lease_key option" where
  "lent (CBody i op n p d) = None"
| "lent (CExport h) = Some (NoiseKey h)"
| "lent (CBuildBitbox h network) = Some (NoiseKey h)"
| "lent (CBuildColdcard h) = Some (ColdcardKey h)"
| "lent (CDrop k) = Some k"
| "lent _ = None"

section \<open>Steps\<close>

abbreviation moves ::
    "nat \<Rightarrow> ('m, 'n, 'e) cposition \<Rightarrow> ('m, 'n, 'e) csys \<Rightarrow> ('m, 'n, 'e) csys" where
  "moves t a s \<equiv> s\<lparr>pos := (pos s)(t := a)\<rparr>"

abbreviation devs :: "('m, 'n, 'e) csys \<Rightarrow> ('n, 'e) device_state" where
  "devs s \<equiv> devices (memory s)"

abbreviation sets_devs :: "('n, 'e) device_state \<Rightarrow> ('m, 'n, 'e) csys \<Rightarrow> ('m, 'n, 'e) csys" where
  "sets_devs d s \<equiv> s\<lparr>memory := (memory s)\<lparr>devices := d\<rparr>\<rparr>"

abbreviation sets_interp ::
    "('n, 'e) device_state \<Rightarrow> nat \<Rightarrow> 'm interp option \<Rightarrow> ('m, 'n, 'e) csys \<Rightarrow> ('m, 'n, 'e) csys" where
  "sets_interp d i q s \<equiv>
     s\<lparr>memory := (memory s)\<lparr>devices := d, interps := (interps (memory s))(i := q)\<rparr>\<rparr>"

text \<open>
  A refused compare-and-swap on the cell under \<open>k\<close>. The result goes to the history, except when it
  is the flag of another call of this kind that refused it; then it goes to \<open>busy\<close>.
\<close>

definition refused_by ::
    "lease_key \<Rightarrow> call_event \<Rightarrow> ('m, 'n, 'e) csys \<Rightarrow> ('m, 'n, 'e) csys" where
  "refused_by k ev s = (if \<exists>u. lent (pos s u) = Some k then s\<lparr>busy := busy s @ [ev]\<rparr>
     else s\<lparr>history := history s @ [ev]\<rparr>)"

inductive conc_step ::
    "crates \<Rightarrow> ('m, 'c, 'n, 'e) families \<Rightarrow> 'n noise_crate \<Rightarrow> (bytes \<Rightarrow> 'e)
     \<Rightarrow> nat \<Rightarrow> ('m, 'n, 'e) csys \<Rightarrow> ('m, 'n, 'e) csys \<Rightarrow> bool"
  for C F N engine_new t where
  \<comment> \<open>handles and interpreters without a lease are made in memory no other thread can reach\<close>
  c_noise: "\<lbrakk>pos s t = CIdle; a \<notin> noise_handles (memory s); noise_handle_new N config = Inr h\<rbrakk> \<Longrightarrow>
     conc_step C F N engine_new t s (s\<lparr>memory := (memory s)\<lparr>devices := set_noise a h (devs s),
       noise_handles := insert a (noise_handles (memory s))\<rparr>\<rparr>)"
| c_coldcard: "\<lbrakk>pos s t = CIdle; a \<notin> coldcard_handles (memory s)\<rbrakk> \<Longrightarrow>
     conc_step C F N engine_new t s (s\<lparr>memory := (memory s)\<lparr>
       devices := set_coldcard a (coldcard_encryption_new engine_new rng) (devs s),
       coldcard_handles := insert a (coldcard_handles (memory s))\<rparr>\<rparr>)"
| c_other: "\<lbrakk>pos s t = CIdle; interps (memory s) i = None; owns_nothing F p\<rbrakk> \<Longrightarrow>
     conc_step C F N engine_new t s (sets_interp (devs s) i (Some p) s)"
  \<comment> \<open>the pairing-code slot, behind a mutex of its own\<close>
| c_take_code: "\<lbrakk>pos s t = CIdle; take_pairing_code (noises (devs s) a) = (h, r)\<rbrakk> \<Longrightarrow>
     conc_step C F N engine_new t s (sets_devs (set_noise a h (devs s)) s)"
| c_hook: "\<lbrakk>pos s t = CBody i op n p d; live_session p \<noteq> None; interp_key p = Some (NoiseKey a);
     h = (noises (devs s) a)\<lparr>nh_pairing_code := pairing_hook code (nh_pairing_code (noises (devs s) a))\<rparr>\<rbrakk>
     \<Longrightarrow> conc_step C F N engine_new t s (sets_devs (set_noise a h (devs s)) s)"
  \<comment> \<open>\<open>Leased::with\<close>\<close>
| c_export_swap: "\<lbrakk>pos s t = CIdle; a \<in> noise_handles (memory s);
     key_acquire (NoiseKey a) (devs s) = Some d\<rbrakk> \<Longrightarrow>
     conc_step C F N engine_new t s (moves t (CExport a) (sets_devs d s))"
| c_export_store: "pos s t = CExport a \<Longrightarrow>
     conc_step C F N engine_new t s
       ((moves t CIdle (sets_devs (key_release (NoiseKey a) (devs s)) s))\<lparr>history := history s
         @ [Exported a (Inr (noise_config_from
              (noise_state_data N (get_leased (nh_state (noises (devs s) a))))))]\<rparr>)"
| c_export_refused: "\<lbrakk>pos s t = CIdle; a \<in> noise_handles (memory s);
     noise_export N (noises (devs s) a) = (h, Inl e)\<rbrakk> \<Longrightarrow>
     conc_step C F N engine_new t s (refused_by (NoiseKey a) (Exported a (Inl e)) s)"
  \<comment> \<open>the constructors with a lease\<close>
| c_bitbox_swap: "\<lbrakk>pos s t = CIdle; a \<in> noise_handles (memory s);
     key_acquire (NoiseKey a) (devs s) = Some d\<rbrakk> \<Longrightarrow>
     conc_step C F N engine_new t s (moves t (CBuildBitbox a network) (sets_devs d s))"
| c_bitbox: "\<lbrakk>pos s t = CBuildBitbox a network; interps (memory s) i = None\<rbrakk> \<Longrightarrow>
     conc_step C F N engine_new t s ((moves t CIdle (sets_interp (devs s) i
       (Some (interp_build (BitBoxI a (bitbox_new F (network_to_core network))) KBitBox (LeaseNoise a))) s))
         \<lparr>history := history s @ [BuiltBitbox a network (Inr i)]\<rparr>)"
| c_bitbox_refused: "\<lbrakk>pos s t = CIdle; a \<in> noise_handles (memory s);
     new_bitbox F a network (devs s) = (d, Inl e)\<rbrakk> \<Longrightarrow>
     conc_step C F N engine_new t s (refused_by (NoiseKey a) (BuiltBitbox a network (Inl e)) s)"
| c_coldcard_swap: "\<lbrakk>pos s t = CIdle; a \<in> coldcard_handles (memory s);
     key_acquire (ColdcardKey a) (devs s) = Some d\<rbrakk> \<Longrightarrow>
     conc_step C F N engine_new t s (moves t (CBuildColdcard a) (sets_devs d s))"
| c_coldcard_interp: "\<lbrakk>pos s t = CBuildColdcard a; interps (memory s) i = None\<rbrakk> \<Longrightarrow>
     conc_step C F N engine_new t s ((moves t CIdle (sets_interp (devs s) i
       (Some (interp_build (ColdcardI a (coldcard_new F)) KColdcard (LeaseColdcard a))) s))
         \<lparr>history := history s @ [BuiltColdcard a (Inr i)]\<rparr>)"
| c_coldcard_refused: "\<lbrakk>pos s t = CIdle; a \<in> coldcard_handles (memory s);
     new_coldcard F a (devs s) = (d, Inl e)\<rbrakk> \<Longrightarrow>
     conc_step C F N engine_new t s (refused_by (ColdcardKey a) (BuiltColdcard a (Inl e)) s)"
  \<comment> \<open>\<open>start\<close>, \<open>exchange\<close> and \<open>end\<close>\<close>
| c_enter: "\<lbrakk>pos s t = CIdle; interps (memory s) i \<noteq> None\<rbrakk> \<Longrightarrow>
     conc_step C F N engine_new t s (moves t (CWait i op (length (history s))) s)"
| c_lock: "\<lbrakk>pos s t = CWait i op n; guard s i = None\<rbrakk> \<Longrightarrow>
     conc_step C F N engine_new t s (moves t (CHeld i op n) (s\<lparr>guard := (guard s)(i \<mapsto> t)\<rparr>))"
| c_body: "\<lbrakk>pos s t = CHeld i op n; interps (memory s) i = Some p\<rbrakk> \<Longrightarrow>
     conc_step C F N engine_new t s (moves t (CBody i op n p (devs s)) s)"
  \<comment> \<open>inside: the session and the borrowed cell can be anything, the flag apart\<close>
| c_tear: "\<lbrakk>pos s t = CBody i op n p d; live_session p \<noteq> None;
     \<forall>k. interp_key p = Some k \<longrightarrow> key_held k x\<rbrakk> \<Longrightarrow>
     conc_step C F N engine_new t s (sets_interp (put_view (interp_key p) x (devs s)) i (Some q) s)"
| c_finish: "\<lbrakk>pos s t = CBody i op n p d; interp_call C F op p d = (p', d', r)\<rbrakk> \<Longrightarrow>
     conc_step C F N engine_new t s ((moves t (CLeave i op n (Some r))
       (sets_interp (put_view (interp_key p) d' (devs s)) i (Some p') s))
         \<lparr>history := history s @ [Called i op r]\<rparr>)"
| c_panic: "\<lbrakk>pos s t = CBody i (Op sop) n p d; live_session p = Some ses; wf_session ses';
     ses_lease ses' = ses_lease ses\<rbrakk> \<Longrightarrow>
     conc_step C F N engine_new t s (moves t (CLeave i (Op sop) n None)
       (sets_interp (devs s) i (Some \<lparr>poisoned = True, guarded = Some ses'\<rparr>) s))"
| c_panic_end: "\<lbrakk>pos s t = CBody i EndOp n p d; live_session p = Some ses\<rbrakk> \<Longrightarrow>
     conc_step C F N engine_new t s (moves t (CLeave i EndOp n None)
       (sets_interp (drop_lease (ses_lease ses) (devs s)) i
         (Some \<lparr>poisoned = True, guarded = None\<rparr>) s))"
| c_unlock: "pos s t = CLeave i op n r \<Longrightarrow>
     conc_step C F N engine_new t s (moves t CIdle (s\<lparr>guard := (guard s)(i := None)\<rparr>))"
  \<comment> \<open>the last reference to an interpreter\<close>
| c_drop: "\<lbrakk>pos s t = CIdle; interps (memory s) i = Some p; \<forall>u. keeps (pos s u) \<noteq> Some i\<rbrakk> \<Longrightarrow>
     conc_step C F N engine_new t s
       (moves t (case interp_key p of None \<Rightarrow> CIdle | Some k \<Rightarrow> CDrop k)
         (sets_interp (devs s) i None s))"
| c_drop_store: "pos s t = CDrop k \<Longrightarrow>
     conc_step C F N engine_new t s (moves t CIdle (sets_devs (key_release k (devs s)) s))"

inductive_cases conc_stepE: "conc_step C F N engine_new t s s'"

definition conc_init :: "('m, 'n, 'e) csys \<Rightarrow> bool" where
  "conc_init s \<longleftrightarrow> host_init (memory s) \<and> guard s = (\<lambda>_. None) \<and> pos s = (\<lambda>_. CIdle)
     \<and> history s = [] \<and> busy s = []"

definition conc_next ::
    "crates \<Rightarrow> ('m, 'c, 'n, 'e) families \<Rightarrow> 'n noise_crate \<Rightarrow> (bytes \<Rightarrow> 'e)
     \<Rightarrow> ('m, 'n, 'e) csys \<Rightarrow> ('m, 'n, 'e) csys \<Rightarrow> bool" where
  "conc_next C F N engine_new s s' \<longleftrightarrow> (\<exists>t. conc_step C F N engine_new t s s')"

end
