(* ===== verification/Locality.thy ===== *)
theory Locality
  imports Host
begin

text \<open>
  What a call on an interpreter may read. Besides the interpreter itself it depends on the cell
  its session leases and on nothing else of the memory: given the same cell it returns the same
  result and leaves the same cell, whatever else the memory holds. The contract of a borrowing
  operation is extended by this law, and lifted to the calls of \<open>Interp\<close>.
\<close>

section \<open>Cells\<close>

text \<open>The leased cell under a key, flag included, in two memories.\<close>

fun cell_eq :: "lease_key \<Rightarrow> ('n, 'e) device_state \<Rightarrow> ('n, 'e) device_state \<Rightarrow> bool" where
  "cell_eq (NoiseKey h) d d' = (nh_state (noises d h) = nh_state (noises d' h))"
| "cell_eq (ColdcardKey h) d d' = (ce_engine (coldcards d h) = ce_engine (coldcards d' h))"

definition view_eq :: "lease_key option \<Rightarrow> ('n, 'e) device_state \<Rightarrow> ('n, 'e) device_state \<Rightarrow> bool" where
  "view_eq key d d' \<longleftrightarrow> (\<forall>k. key = Some k \<longrightarrow> cell_eq k d d')"

lemma cell_eq_refl [simp]: "cell_eq k d d"
  by (cases k) simp_all

lemma cell_eq_sym: "cell_eq k d d' \<Longrightarrow> cell_eq k d' d"
  by (cases k) simp_all

lemma cell_eq_trans: "cell_eq k a b \<Longrightarrow> cell_eq k b c \<Longrightarrow> cell_eq k a c"
  by (cases k) simp_all

lemma cell_eq_held: "cell_eq k d d' \<Longrightarrow> key_held k d = key_held k d'"
  by (cases k) simp_all

lemma cell_eq_acquire:
  "cell_eq k d d' \<Longrightarrow> key_acquire k d = Some e \<Longrightarrow> key_acquire k d' = Some e' \<Longrightarrow> cell_eq k e e'"
  by (cases k) auto

lemma cell_eq_release: "cell_eq k d d' \<Longrightarrow> cell_eq k (key_release k d) (key_release k d')"
  by (cases k) simp_all

lemma cell_eq_acquire_other: "key_acquire k d = Some e \<Longrightarrow> j \<noteq> k \<Longrightarrow> cell_eq j d e"
  by (cases k; cases j) (auto simp: acquire_def split: if_splits)

lemma cell_eq_release_other: "j \<noteq> k \<Longrightarrow> cell_eq j d (key_release k d)"
  by (cases k; cases j) auto

lemma view_eq_simps [simp]: "view_eq None d d'" "view_eq (Some k) d d' \<longleftrightarrow> cell_eq k d d'"
  by (simp_all add: view_eq_def)

lemma view_eq_drop:
  "view_eq (lease_key_of l) d d' \<Longrightarrow> view_eq (lease_key_of l) (drop_lease l d) (drop_lease l d')"
  by (cases l) simp_all

lemma untouched_cell: "untouched_but key d d' \<Longrightarrow> key \<noteq> Some j \<Longrightarrow> cell_eq j d d'"
  by (cases j) (simp_all add: untouched_but_def)

section \<open>Local operations\<close>

text \<open>Two outcomes of the same operation on memories with the same view.\<close>

definition same_outcome ::
    "lease_key option \<Rightarrow> 'x \<times> ('n, 'e) device_state \<times> 'r \<Rightarrow> 'x \<times> ('n, 'e) device_state \<times> 'r \<Rightarrow> bool" where
  "same_outcome key a b \<longleftrightarrow> (case (a, b) of ((x, d, r), (x', d', r')) \<Rightarrow>
     x' = x \<and> r' = r \<and> view_eq key d d')"

lemma same_outcome_eq [simp]:
  "same_outcome key (x, d, r) (x', d', r') \<longleftrightarrow> x' = x \<and> r' = r \<and> view_eq key d d'"
  by (simp add: same_outcome_def)

lemma same_outcomeD:
  assumes "same_outcome key a b" and "a = (x, d, r)"
  obtains d' where "b = (x, d', r)" and "view_eq key d d'"
  using assms by (cases b) auto

locale local_op = borrowing_op bop
  for bop :: "'x \<Rightarrow> 'm inner \<Rightarrow> ('n, 'e) device_state \<Rightarrow> 'm inner \<times> ('n, 'e) device_state \<times> 'r" +
  assumes bop_local: "view_eq (lease_key_of (inner_ref i)) d d' \<Longrightarrow>
    same_outcome (lease_key_of (inner_ref i)) (bop x i d) (bop x i d')"

lemma on_noise_local:
  "cell_eq (NoiseKey h) d d' \<Longrightarrow>
     same_outcome (Some (NoiseKey h)) (wrap_inner w (on_noise h f d)) (wrap_inner w (on_noise h f d'))"
  by (auto simp: on_noise_def wrap_inner_def Let_def split: prod.splits)

lemma on_coldcard_local:
  "cell_eq (ColdcardKey h) d d' \<Longrightarrow>
     same_outcome (Some (ColdcardKey h)) (wrap_inner w (on_coldcard h f d))
       (wrap_inner w (on_coldcard h f d'))"
  by (auto simp: on_coldcard_def wrap_inner_def Let_def split: prod.splits)

lemma on_nothing_local:
  "same_outcome None (wrap_inner w (on_nothing f d)) (wrap_inner w (on_nothing f d'))"
  by (auto simp: on_nothing_def wrap_inner_def split: prod.splits)

interpretation exchange_local: local_op "inner_exchange F" for F :: "('m, 'c, 'n, 'e) families"
proof
  fix i x and d d' :: "('n, 'e) device_state"
  show "view_eq (lease_key_of (inner_ref i)) d d' \<Longrightarrow>
      same_outcome (lease_key_of (inner_ref i)) (inner_exchange F x i d) (inner_exchange F x i d')"
    by (cases i) (simp_all add: on_noise_local on_coldcard_local on_nothing_local
        del: same_outcome_eq cell_eq.simps)
qed

interpretation start_local: local_op "inner_start F" for F :: "('m, 'c, 'n, 'e) families"
proof
  fix i x and d d' :: "('n, 'e) device_state"
  show "view_eq (lease_key_of (inner_ref i)) d d' \<Longrightarrow>
      same_outcome (lease_key_of (inner_ref i)) (inner_start F x i d) (inner_start F x i d')"
    by (cases i) (simp_all add: on_noise_local on_coldcard_local on_nothing_local
        del: same_outcome_eq cell_eq.simps)
qed

lemma inner_end_local:
  assumes "view_eq (lease_key_of (inner_ref i)) d d'" and "inner_end F i d = (e, r)"
    and "inner_end F i d' = (e', r')"
  shows "r' = r \<and> view_eq (lease_key_of (inner_ref i)) e e'"
  using assms
  by (cases i) (auto simp: on_noise_def on_coldcard_def on_nothing_def Let_def split: prod.splits)

section \<open>Local calls\<close>

lemma session_start_local:
  assumes "view_eq (lease_key_of (inner_ref (ses_inner s))) d d'"
  shows "same_outcome (lease_key_of (inner_ref (ses_inner s)))
    (session_start C F pl s d) (session_start C F pl s d')"
proof (cases "inner_lower F (ses_inner s) (plan_command pl)")
  case (Inl e)
  with assms show ?thesis by (simp add: session_start_def split: prod.splits)
next
  case (Inr c)
  note local = start_local.bop_local [OF assms, of F "Ready c"]
  show ?thesis
  proof (cases "registration_id_of C F s c")
    case (Inl e)
    with Inr assms show ?thesis by (simp add: session_start_def split: prod.splits)
  next
    case reg: (Inr rid)
    obtain i1 e r where x: "inner_start F (Ready c) (ses_inner s) d = (i1, e, r)"
      by (cases "inner_start F (Ready c) (ses_inner s) d") auto
    from same_outcomeD [OF local this] obtain e'
      where "inner_start F (Ready c) (ses_inner s) d' = (i1, e', r)"
        "view_eq (lease_key_of (inner_ref (ses_inner s))) e e'" by blast
    with x Inr reg show ?thesis
      by (simp add: session_start_def Let_def case_prod_beta)
  qed
qed

lemma session_advance_local:
  assumes "view_eq (lease_key_of (inner_ref (ses_inner s))) d d'"
  shows "same_outcome (lease_key_of (inner_ref (ses_inner s)))
    (session_advance C F reply s d) (session_advance C F reply s d')"
proof -
  obtain i1 e r where x: "inner_exchange F reply (ses_inner s) d = (i1, e, r)"
    by (cases "inner_exchange F reply (ses_inner s) d") auto
  from same_outcomeD [OF exchange_local.bop_local [OF assms] x] obtain e'
    where "inner_exchange F reply (ses_inner s) d' = (i1, e', r)"
      "view_eq (lease_key_of (inner_ref (ses_inner s))) e e'" by blast
  with x assms show ?thesis
    unfolding session_advance_hand_over by (auto simp: hand_over_def)
qed

lemma session_call_local:
  assumes "view_eq (lease_key_of (inner_ref (ses_inner s))) d d'"
  shows "same_outcome (lease_key_of (inner_ref (ses_inner s)))
    (session_call C F op s d) (session_call C F op s d')"
proof -
  have relabel: "same_outcome key a b \<Longrightarrow> same_outcome key (relabel f a) (relabel f b)"
    for key f and a b :: "'q \<times> ('f, 'g) device_state \<times> (hwi_error + 'r)"
    by (cases a; cases b) (simp add: relabel_def)
  show ?thesis
  proof (cases op)
    case (StartOp cmd)
    with assms session_start_local [OF assms] show ?thesis
      by (auto simp: start_session_def intro!: relabel split: sum.splits)
  next
    case (ExchangeOp reply)
    with assms session_advance_local [OF assms] show ?thesis
      by (auto simp: exchange_session_def intro!: relabel split: sum.splits)
  qed
qed

lemma install_key_local:
  assumes "cell_eq (ColdcardKey h) d d'" and "install_key F h key d = (e, r)"
    and "install_key F h key d' = (e', r')"
  shows "r' = r \<and> cell_eq (ColdcardKey h) e e'"
  using assms by (auto simp: install_key_def on_coldcard_def Let_def split: prod.splits)

lemma interp_end_local:
  assumes wf: "wf_interp p" and view: "view_eq (interp_key p) d d'"
  shows "same_outcome (interp_key p) (interp_end C F p d) (interp_end C F p d')"
proof (cases "live_session p")
  case None
  then show ?thesis
    using view by (auto simp: interp_end_def lock_def live_session_def)
next
  case (Some s)
  then have key: "interp_key p = lease_key_of (ses_lease s)"
    by (simp add: interp_key_def live_session_eq)
  have ref: "inner_ref (ses_inner s) = ses_lease s"
    using wf_interp_live [OF wf Some] by (simp add: wf_session_def)
  show ?thesis
  proof (cases "ses_finished s")
    case False
    with view show ?thesis
      by (simp add: interp_end_unfinished [OF Some] key view_eq_drop)
  next
    case True
    obtain e r where x: "inner_end F (ses_inner s) d = (e, r)" by fastforce
    obtain e' r' where x': "inner_end F (ses_inner s) d' = (e', r')" by fastforce
    have r: "r' = r" and ev: "view_eq (lease_key_of (ses_lease s)) e e'"
      using inner_end_local [OF _ x x'] view key ref by simp_all
    show ?thesis
    proof (cases "session_key (ses_lease s) r")
      case None
      with r ev show ?thesis
        by (simp add: interp_end_finished [OF Some True x] interp_end_finished [OF Some True x'] key
            view_eq_drop)
    next
      case (Some k)
      then obtain h bs where k: "k = (h, bs)" "ses_lease s = LeaseColdcard h"
        by (cases k) (simp add: session_key_Some)
      obtain g q where i: "install_key F h bs e = (g, q)" by fastforce
      obtain g' q' where i': "install_key F h bs e' = (g', q')" by fastforce
      have "cell_eq (ColdcardKey h) e e'" using ev k by simp
      from install_key_local [OF this i i'] have "q' = q" "cell_eq (ColdcardKey h) g g'" by auto
      with Some r k i i' show ?thesis
        by (simp add: interp_end_finished [OF \<open>live_session p = Some s\<close> True x]
            interp_end_finished [OF \<open>live_session p = Some s\<close> True x'] key)
    qed
  qed
qed

text \<open>
  The law for the object: the result of a call, the interpreter it leaves and the cell it leaves
  are determined by the call, the interpreter and the leased cell.
\<close>

lemma interp_call_local:
  assumes wf: "wf_interp p" and view: "view_eq (interp_key p) d d'"
  shows "same_outcome (interp_key p) (interp_call C F op p d) (interp_call C F op p d')"
proof (cases op)
  case EndOp
  obtain q e r where "interp_end C F p d = (q, e, r)" by (cases "interp_end C F p d") auto
  from same_outcomeD [OF interp_end_local [OF assms] this] obtain e'
    where "interp_end C F p d' = (q, e', r)" "view_eq (interp_key p) e e'" by blast
  with \<open>interp_end C F p d = (q, e, r)\<close> show ?thesis by (simp add: EndOp relabel_def)
next
  case (Op sop)
  show ?thesis
  proof (cases "live_session p")
    case None
    then show ?thesis using view by (simp only: dead_interp_call same_outcome_eq)
  next
    case (Some s)
    then have key: "interp_key p = lease_key_of (inner_ref (ses_inner s))"
      using wf_interp_live [OF wf Some] by (simp add: interp_key_def live_session_eq wf_session_def)
    obtain s1 e out where c: "session_call C F sop s d = (s1, e, out)"
      by (cases "session_call C F sop s d") auto
    from same_outcomeD [OF session_call_local [OF view [unfolded key]] c] obtain e'
      where c': "session_call C F sop s d' = (s1, e', out)"
        and ev: "view_eq (lease_key_of (inner_ref (ses_inner s))) e e'" by blast
    have lease: "ses_lease s1 = inner_ref (ses_inner s)" "ses_lease s = inner_ref (ses_inner s)"
      using session_call_keeps [OF c] wf_interp_live [OF wf Some] by (simp_all add: wf_session_def)
    note calls = op_call_live [OF Some c] op_call_live [OF Some c']
    show ?thesis
    proof (cases "\<exists>e. out = Inl e \<and> ses_started s1 \<and> \<not> is_bad_state e")
      case True
      then show ?thesis
        unfolding Op calls key if_P [OF True] using view_eq_drop [OF ev] lease by simp
    next
      case False
      then show ?thesis
        unfolding Op calls key if_not_P [OF False] using ev by simp
    qed
  qed
qed

end
