(* ===== verification/Linearizable.thy ===== *)
theory Linearizable
  imports Concurrency Locality
begin

text \<open>
  Overlapping calls are linearizable. Every state of \<open>Concurrency\<close> has a shadow, a state of the
  sequential host of \<open>Host\<close> with the same history, which each step of a thread either leaves alone
  or moves by one step; a call takes effect in the shadow when its body is done. That the body saw
  only its own cell, as it was then, is the law of \<open>Locality\<close>.
\<close>

section \<open>The shadow\<close>

text \<open>
  The sequential host a state stands for. A session inside a call is as it was when the call found
  it, and so is the cell it leases; a cell whose flag is up for an export, a constructor or a
  drop is free. Everything else is what the memory holds, pairing codes apart.
\<close>

fun cell_ok ::
    "('m, 'n, 'e) cposition \<Rightarrow> lease_key \<Rightarrow> ('n, 'e) device_state \<Rightarrow> ('n, 'e) device_state \<Rightarrow> bool" where
  "cell_ok (CBody i op n p d) k m h \<longleftrightarrow> key_held k m \<and> key_held k h \<and> cell_eq k d h"
| "cell_ok _ k m h \<longleftrightarrow> key_held k m \<and> \<not> key_held k h \<and> cell_eq k (key_release k m) h"

fun body_ok :: "('m, 'n, 'e) cposition \<Rightarrow> ('m, 'n, 'e) host \<Rightarrow> ('m, 'n, 'e) host \<Rightarrow> bool" where
  "body_ok (CBody i op n p d) m h \<longleftrightarrow> interps h i = Some p \<and> interps m i \<noteq> None"
| "body_ok _ m h \<longleftrightarrow> True"

definition shadows :: "('m, 'n, 'e) csys \<Rightarrow> ('m, 'n, 'e) host \<Rightarrow> bool" where
  "shadows s H \<longleftrightarrow>
     noise_handles H = noise_handles (memory s) \<and> coldcard_handles H = coldcard_handles (memory s)
     \<and> mutex_books locks (pos s) (guard s)
     \<and> (\<forall>t. body_ok (pos s t) (memory s) H)
     \<and> (\<forall>i. (\<forall>t. body_of (pos s t) \<noteq> Some i) \<longrightarrow> interps H i = interps (memory s) i)
     \<and> (\<forall>t k. uses (pos s t) = Some k \<longrightarrow> cell_ok (pos s t) k (devs s) (devices H) \<and> allocated (memory s) k)
     \<and> (\<forall>k. (\<forall>t. uses (pos s t) \<noteq> Some k) \<longrightarrow> cell_eq k (devs s) (devices H))
     \<and> (\<forall>t u k. uses (pos s t) = Some k \<longrightarrow> uses (pos s u) = Some k \<longrightarrow> u = t)"

lemma shadowsD:
  assumes "shadows s H"
  shows "noise_handles H = noise_handles (memory s)"
    and "coldcard_handles H = coldcard_handles (memory s)"
    and "mutex_books locks (pos s) (guard s)"
    and "body_ok (pos s t) (memory s) H"
    and "(\<And>t. body_of (pos s t) \<noteq> Some i) \<Longrightarrow> interps H i = interps (memory s) i"
    and "uses (pos s t) = Some k \<Longrightarrow> cell_ok (pos s t) k (devs s) (devices H)"
    and "uses (pos s t) = Some k \<Longrightarrow> allocated (memory s) k"
    and "(\<And>t. uses (pos s t) \<noteq> Some k) \<Longrightarrow> cell_eq k (devs s) (devices H)"
    and "uses (pos s t) = Some k \<Longrightarrow> uses (pos s u) = Some k \<Longrightarrow> u = t"
  using assms unfolding shadows_def by blast+

lemma shadows_log [simp]:
  "shadows (s\<lparr>history := h\<rparr>) H = shadows s H" "shadows (s\<lparr>busy := b\<rparr>) H = shadows s H"
  by (simp_all add: shadows_def)

lemma cell_ok_cong:
  assumes "cell_eq k m m'" and "cell_eq k h h'" and "cell_ok a k m h"
  shows "cell_ok a k m' h'"
proof -
  note flags = cell_eq_held [OF assms(1)] cell_eq_held [OF assms(2)]
  have "cell_eq k d h \<Longrightarrow> cell_eq k d h'" for d using assms(2) cell_eq_trans by blast
  moreover have "cell_eq k (key_release k m) h \<Longrightarrow> cell_eq k (key_release k m') h'"
    using cell_eq_release [OF assms(1)] assms(2) by (meson cell_eq_sym cell_eq_trans)
  ultimately show ?thesis using assms(3) flags by (cases a) auto
qed

lemma body_of_locks: "body_of a = Some i \<Longrightarrow> locks a = Some i"
  by (cases a) simp_all

lemma locks_keeps: "locks a = Some i \<Longrightarrow> keeps a = Some i"
  by (cases a) simp_all

text \<open>
  One step of thread \<open>t\<close>, from its own side: it goes to \<open>a\<close> and touches at most the interpreter \<open>I\<close>
  and the cell \<open>K\<close>, which no other thread is in. Then only these two have to be looked at.
\<close>

lemma shadows_step:
  fixes s s' :: "('m, 'n, 'e) csys"
  assumes sh: "shadows s H" and pos: "pos s' = (pos s)(t := a)"
    and handles: "noise_handles H' = noise_handles (memory s')"
      "coldcard_handles H' = coldcard_handles (memory s')"
      "\<And>k. allocated (memory s) k \<Longrightarrow> allocated (memory s') k"
    and locks: "mutex_books locks ((pos s)(t := a)) (guard s')"
    and I: "\<And>i. I \<noteq> Some i \<Longrightarrow> interps (memory s') i = interps (memory s) i \<and> interps H' i = interps H i"
      "\<And>u i. I = Some i \<Longrightarrow> u \<noteq> t \<Longrightarrow> body_of (pos s u) \<noteq> Some i"
      "body_of (pos s t) = None \<or> body_of (pos s t) = I" "body_of a = None \<or> body_of a = I"
      "body_ok a (memory s') H'"
      "\<And>i. I = Some i \<Longrightarrow> body_of a = None \<Longrightarrow> interps H' i = interps (memory s') i"
    and K: "\<And>k. K \<noteq> Some k \<Longrightarrow> cell_eq k (devs s) (devs s') \<and> cell_eq k (devices H) (devices H')"
      "\<And>u k. K = Some k \<Longrightarrow> u \<noteq> t \<Longrightarrow> uses (pos s u) \<noteq> Some k"
      "uses (pos s t) = None \<or> uses (pos s t) = K" "uses a = None \<or> uses a = K"
      "\<And>k. K = Some k \<Longrightarrow> uses a = K \<Longrightarrow>
        cell_ok a k (devs s') (devices H') \<and> allocated (memory s') k"
      "\<And>k. K = Some k \<Longrightarrow> uses a = None \<Longrightarrow> cell_eq k (devs s') (devices H')"
  shows "shadows s' H'"
  unfolding shadows_def
proof (intro conjI allI impI)
  show "noise_handles H' = noise_handles (memory s')" "coldcard_handles H' = coldcard_handles (memory s')"
    by (fact handles)+
  show "mutex_books locks (pos s') (guard s')" using locks pos by simp
next
  fix u
  show "body_ok (pos s' u) (memory s') H'"
  proof (cases "u = t")
    case False
    have "I \<noteq> body_of (pos s u) \<or> body_of (pos s u) = None" using I(2) [OF _ False] by fastforce
    with False shadowsD(4) [OF sh, of u] I(1) pos show ?thesis by (cases "pos s u") auto
  qed (simp add: pos I)
next
  fix i assume none: "\<forall>u. body_of (pos s' u) \<noteq> Some i"
  then have a: "body_of a \<noteq> Some i" and other: "\<And>u. u \<noteq> t \<Longrightarrow> body_of (pos s u) \<noteq> Some i"
    using pos by (force dest: spec [of _ t], auto split: if_splits)
  show "interps H' i = interps (memory s') i"
  proof (cases "I = Some i")
    case True
    with I(4, 6) a show ?thesis by auto
  next
    case False
    with I(3) have "body_of (pos s t) \<noteq> Some i" by auto
    with other have "body_of (pos s u) \<noteq> Some i" for u by (cases "u = t") auto
    with I(1) [OF False] shadowsD(5) [OF sh] show ?thesis by metis
  qed
next
  fix u k assume used: "uses (pos s' u) = Some k"
  show "cell_ok (pos s' u) k (devs s') (devices H')"
  proof (cases "u = t")
    case True
    with used K(4, 5) pos show ?thesis by auto
  next
    case False
    with used K(2) pos have "K \<noteq> Some k" by auto
    with False used pos K(1) shadowsD(6) [OF sh, of u k] cell_ok_cong show ?thesis by force
  qed
  show "allocated (memory s') k"
  proof (cases "u = t")
    case True
    with used K(4, 5) pos show ?thesis by auto
  next
    case False
    with used pos shadowsD(7) [OF sh, of u k] handles(3) show ?thesis by simp
  qed
next
  fix k assume none: "\<forall>u. uses (pos s' u) \<noteq> Some k"
  then have a: "uses a \<noteq> Some k" and other: "\<And>u. u \<noteq> t \<Longrightarrow> uses (pos s u) \<noteq> Some k"
    using pos by (force dest: spec [of _ t], auto split: if_splits)
  show "cell_eq k (devs s') (devices H')"
  proof (cases "K = Some k")
    case True
    with K(4, 6) a show ?thesis by auto
  next
    case False
    with K(3) have "uses (pos s t) \<noteq> Some k" by auto
    with other have "uses (pos s u) \<noteq> Some k" for u by (cases "u = t") auto
    with K(1) [OF False] shadowsD(8) [OF sh] show ?thesis by (meson cell_eq_sym cell_eq_trans)
  qed
next
  fix u v k assume "uses (pos s' u) = Some k" and "uses (pos s' v) = Some k"
  then show "v = u"
    using pos K(2, 4) shadowsD(9) [OF sh, of u k v] by (auto split: if_splits)
qed

section \<open>Cells written and flags moved\<close>

lemma put_cell_eq: "cell_eq k d (put_cell k d m)"
  by (cases k) simp_all

lemma put_cell_other: "j \<noteq> k \<Longrightarrow> cell_eq j m (put_cell k d m)"
  by (cases k; cases j) simp_all

lemma put_view_eq: "key = Some k \<Longrightarrow> cell_eq k d (put_view key d m)"
  by (simp add: put_view_def put_cell_eq)

lemma put_view_other: "key \<noteq> Some k \<Longrightarrow> cell_eq k m (put_view key d m)"
  by (cases key) (simp_all add: put_view_def put_cell_other)

lemma put_view_held: "key = Some k \<Longrightarrow> key_held k (put_view key d m) = key_held k d"
  using cell_eq_held [OF put_view_eq] by metis

lemma drop_other: "lease_key_of l \<noteq> Some k \<Longrightarrow> cell_eq k m (drop_lease l m)"
  by (cases "lease_key_of l") (auto simp: drop_lease_key cell_eq_release_other)

lemma put_view_agree:
  assumes "\<And>k. lease_key_of l = Some k \<Longrightarrow> key_held k d = key_held k m"
  shows "agree_outside l m (put_view (lease_key_of l) d m)"
proof -
  have "key_held j (put_view (lease_key_of l) d m) = key_held j m" for j
    using assms put_view_held [of "lease_key_of l" j d m]
      cell_eq_held [OF put_view_other [of "lease_key_of l" j m d]]
    by (cases "lease_key_of l = Some j") auto
  then show ?thesis by (cases l) (simp_all add: agree_outside_def put_view_def)
qed

lemma release_leased: "x\<lparr>is_leased := False\<rparr> = y \<Longrightarrow> is_leased x \<Longrightarrow> x = y\<lparr>is_leased := True\<rparr>"
  by (cases x; cases y) simp

lemma release_eq_acquired:
  assumes "cell_eq k (key_release k m) h" and "key_held k m" and "key_acquire k h = Some e"
  shows "cell_eq k m e"
  using assms
  by (cases k) (auto simp: acquire_def release_def release_leased split: if_splits)

lemma acquire_release_eq:
  assumes "key_acquire k d = Some e"
  shows "cell_eq k (key_release k e) d" and "key_held k e" and "\<not> key_held k d"
  using assms
  by (cases k; auto simp: acquire_def release_def split: if_splits intro!: leased.equality)+

section \<open>Every step is a step of the sequential host, or none\<close>

lemma lock_exclusive:
  assumes "shadows s H" and "locks (pos s t) = Some i" and "u \<noteq> t"
  shows "body_of (pos s u) \<noteq> Some i"
proof
  assume "body_of (pos s u) = Some i"
  then have "locks (pos s u) = Some i" by (rule body_of_locks)
  with assms show False using shadowsD(3) [OF assms(1)] by (simp add: mutex_books_def)
qed

lemma shadow_allocated: "shadows s H \<Longrightarrow> allocated (memory s) k = allocated H k"
  by (cases k) (simp_all add: shadows_def)

text \<open>The cell an interpreter leases is used by nobody who is not in a call on it.\<close>

lemma lease_unused:
  assumes inv: "host_inv H" and sh: "shadows s H" and p: "interps H i = Some p" "interp_key p = Some k"
    and free: "\<And>u. u \<noteq> t \<Longrightarrow> body_of (pos s u) \<noteq> Some i" and u: "u \<noteq> t"
  shows "uses (pos s u) \<noteq> Some k"
proof
  assume used: "uses (pos s u) = Some k"
  have books: "lease_books key_held (holder H) (devices H)" using inv by (simp add: host_inv_def)
  have owned: "holder H i = Some k" using p by (simp add: holder_def)
  with lease_books_held [OF books, of k] have held: "key_held k (devices H)" by blast
  show False
  proof (cases "pos s u")
    case (CBody j op n q d)
    with shadowsD(4) [OF sh, of u] used have "holder H j = Some k" by (simp add: holder_def)
    with lease_books_exclusive [OF books owned] have "j = i" by blast
    with free [OF u] CBody show False by simp
  qed (use used held shadowsD(6) [OF sh used] in auto)
qed

text \<open>Steps that leave the interpreters and the cells alone.\<close>

lemma shadows_stay:
  assumes sh: "shadows s H" and "pos s' = (pos s)(t := a)" and "memory s' = memory s"
    and "mutex_books locks ((pos s)(t := a)) (guard s')"
    and "uses (pos s t) = None" "uses a = None" "body_of (pos s t) = None" "body_of a = None"
  shows "shadows s' H"
  by (rule shadows_step [OF sh assms(2), where I = None and K = None])
    (use assms shadowsD(1, 2) [OF sh] in \<open>cases a; simp\<close>)+

text \<open>A thread that takes or gives back a flag, or writes to a handle, with no interpreter involved.\<close>

lemma shadows_cell:
  assumes sh: "shadows s H" and s': "s' = moves t a (sets_devs m s)"
    and "locks (pos s t) = None" "locks a = None" "body_of a = None"
    and "\<And>j. j \<noteq> k \<Longrightarrow> cell_eq j (devs s) m"
    and "\<And>u. u \<noteq> t \<Longrightarrow> uses (pos s u) \<noteq> Some k"
    and "uses (pos s t) = None \<or> uses (pos s t) = Some k" and "uses a = None \<or> uses a = Some k"
    and "uses a = Some k \<Longrightarrow> cell_ok a k m (devices H) \<and> allocated (memory s) k"
    and "uses a = None \<Longrightarrow> cell_eq k m (devices H)"
  shows "shadows s' H"
proof (rule shadows_step [OF sh, where I = None and K = "Some k"])
  show "mutex_books locks ((pos s)(t := a)) (guard s')"
    using mutex_stay [OF shadowsD(3) [OF sh], of a t] assms(3, 4) s' by simp
  show "body_of (pos s t) = None \<or> body_of (pos s t) = None"
    using assms(3) by (cases "pos s t") simp_all
  show "body_ok a (memory s') H" using assms(5) by (cases a) simp_all
qed (use assms shadowsD(1, 2) [OF sh] in simp_all)

lemma free_cell:
  assumes "shadows s H" and "\<not> key_held k (devs s)"
  shows "uses (pos s u) \<noteq> Some k" and "cell_eq k (devs s) (devices H)"
proof -
  show none: "uses (pos s u) \<noteq> Some k" for u
    using shadowsD(6) [OF assms(1), of u k] assms(2) by (cases "pos s u") auto
  show "cell_eq k (devs s) (devices H)" by (rule shadowsD(8) [OF assms(1) none])
qed

text \<open>A successful swap; the sequential host has done nothing yet.\<close>

lemma shadows_swap:
  assumes sh: "shadows s H" and s': "s' = moves t a (sets_devs d s)"
    and "pos s t = CIdle" and acq: "key_acquire k (devs s) = Some d"
    and "allocated (memory s) k" and a: "uses a = Some k" "locks a = None"
  shows "shadows s' H"
proof (rule shadows_cell [OF sh s'])
  note free = free_cell [OF sh acquire_release_eq(3) [OF acq]]
  show "uses (pos s u) \<noteq> Some k" for u by (rule free)
  show "j \<noteq> k \<Longrightarrow> cell_eq j (devs s) d" for j by (rule cell_eq_acquire_other [OF acq])
  have "cell_eq k (key_release k d) (devices H)"
    using acquire_release_eq(1) [OF acq] free(2) by (rule cell_eq_trans)
  with a acquire_release_eq(2, 3) [OF acq] cell_eq_held [OF free(2)]
  show "cell_ok a k d (devices H) \<and> allocated (memory s) k" using assms(5) by (cases a) simp_all
  show "body_of a = None" using a(2) by (cases a) simp_all
qed (use assms in simp_all)

text \<open>And the store that gives the flag back.\<close>

lemma shadows_store:
  assumes sh: "shadows s H" and s': "s' = moves t CIdle (sets_devs (key_release k (devs s)) s)"
    and a: "uses (pos s t) = Some k" "locks (pos s t) = None"
  shows "shadows s' H"
proof (rule shadows_cell [OF sh s'])
  show "u \<noteq> t \<Longrightarrow> uses (pos s u) \<noteq> Some k" for u using shadowsD(9) [OF sh a(1), of u] by blast
  show "j \<noteq> k \<Longrightarrow> cell_eq j (devs s) (key_release k (devs s))" for j by (rule cell_eq_release_other)
  show "cell_eq k (key_release k (devs s)) (devices H)"
    using shadowsD(6) [OF sh a(1)] a by (cases "pos s t") simp_all
qed (use a in simp_all)

text \<open>A pairing code delivered or taken.\<close>

lemma shadows_code:
  assumes sh: "shadows s H" and "nh_state h = nh_state (noises (devs s) a)"
  shows "shadows (sets_devs (set_noise a h (devs s)) s) H"
proof -
  have eq: "cell_eq k (devs s) (set_noise a h (devs s))" for k using assms(2) by (cases k) simp_all
  have body: "body_ok b ((memory s)\<lparr>devices := d\<rparr>) H = body_ok b (memory s) H" for b d
    by (cases b) simp_all
  have cell: "cell_eq k (devs s) (devices H) \<Longrightarrow> cell_eq k (set_noise a h (devs s)) (devices H)" for k
    using eq cell_eq_sym cell_eq_trans by metis
  show ?thesis
    unfolding shadows_def
  proof (intro conjI allI impI)
    fix u k assume "uses (pos (sets_devs (set_noise a h (devs s)) s) u) = Some k"
    then show "cell_ok (pos (sets_devs (set_noise a h (devs s)) s) u) k
        (devs (sets_devs (set_noise a h (devs s)) s)) (devices H)"
      using cell_ok_cong [OF eq cell_eq_refl shadowsD(6) [OF sh, of u k]] by simp
  next
    fix k assume "\<forall>u. uses (pos (sets_devs (set_noise a h (devs s)) s) u) \<noteq> Some k"
    then show "cell_eq k (devs (sets_devs (set_noise a h (devs s)) s)) (devices H)"
      using shadowsD(8) [OF sh] cell by simp
  next
    fix u v k assume "uses (pos (sets_devs (set_noise a h (devs s)) s) u) = Some k"
      and "uses (pos (sets_devs (set_noise a h (devs s)) s) v) = Some k"
    then show "v = u" using shadowsD(9) [OF sh] by simp
  qed (use shadowsD(1-5, 7) [OF sh] body in simp_all)
qed

text \<open>A new object, published where nothing was.\<close>

lemma shadows_publish:
  assumes sh: "shadows s H" and s': "s' = moves t CIdle (sets_interp (devs s) i (Some p) s)"
    and "locks (pos s t) = None" and new: "interps (memory s) i = None"
    and key: "uses (pos s t) = key"
    and flag: "\<And>k. key = Some k \<Longrightarrow> key_acquire k (devices H) = Some e"
      "key = None \<Longrightarrow> e = devices H"
  shows "interps H i = None"
    and "shadows s' (H\<lparr>devices := e, interps := (interps H)(i \<mapsto> p)\<rparr>)"
proof -
  have free: "body_of (pos s u) \<noteq> Some i" for u
    using shadowsD(4) [OF sh, of u] new by (cases "pos s u") auto
  then show "interps H i = None" using shadowsD(5) [OF sh] new by simp
  show "shadows s' (H\<lparr>devices := e, interps := (interps H)(i \<mapsto> p)\<rparr>)"
  proof (rule shadows_step [OF sh, where I = "Some i" and K = key])
    show "mutex_books locks ((pos s)(t := CIdle)) (guard s')"
      using mutex_stay [OF shadowsD(3) [OF sh], of CIdle t] assms(3) s' by simp
    show "body_of (pos s t) = None \<or> body_of (pos s t) = Some i"
      using assms(3) by (cases "pos s t") simp_all
    show "key \<noteq> Some k \<Longrightarrow> cell_eq k (devs s) (devs s')
      \<and> cell_eq k (devices H) (devices (H\<lparr>devices := e, interps := (interps H)(i \<mapsto> p)\<rparr>))" for k
      using flag cell_eq_acquire_other [of _ "devices H" e k] s' by (cases key) auto
    show "key = Some k \<Longrightarrow> u \<noteq> t \<Longrightarrow> uses (pos s u) \<noteq> Some k" for u k
      using shadowsD(9) [OF sh, of t k u] key by blast
    show "key = Some k \<Longrightarrow>
        cell_eq k (devs s') (devices (H\<lparr>devices := e, interps := (interps H)(i \<mapsto> p)\<rparr>))" for k
      using shadowsD(6) [OF sh, of t k] key assms(3) flag(1) [of k] release_eq_acquired [of k "devs s"] s'
      by (cases "pos s t") auto
  qed (use free key s' shadowsD(1, 2) [OF sh] in simp_all)
qed

text \<open>A thread that comes out of the body of a call, and one that tears the state inside.\<close>

lemma shadows_leave:
  assumes sh: "shadows s H" and body: "pos s t = CBody i op n p d"
    and s': "s' = (moves t (CLeave i op' n r) (sets_interp m i (Some q) s))\<lparr>history := hist\<rparr>"
    and other: "\<And>k. interp_key p \<noteq> Some k \<Longrightarrow> cell_eq k (devs s) m \<and> cell_eq k (devices H) h"
    and same: "\<And>k. interp_key p = Some k \<Longrightarrow> cell_eq k m h"
  shows "shadows s' (H\<lparr>devices := h, interps := (interps H)(i \<mapsto> q)\<rparr>)"
proof (rule shadows_step [OF sh, where I = "Some i" and K = "interp_key p"])
  show "mutex_books locks ((pos s)(t := CLeave i op' n r)) (guard s')"
    using mutex_stay [OF shadowsD(3) [OF sh], of "CLeave i op' n r" t] body s' by simp
  show "Some i = Some j \<Longrightarrow> u \<noteq> t \<Longrightarrow> body_of (pos s u) \<noteq> Some j" for u j
    using lock_exclusive [OF sh, of t i u] body by simp
  show "interp_key p = Some k \<Longrightarrow> u \<noteq> t \<Longrightarrow> uses (pos s u) \<noteq> Some k" for u k
    using shadowsD(9) [OF sh, of t k u] body by auto
qed (use other same body s' shadowsD(1, 2) [OF sh] in simp_all)

lemma shadows_tear:
  assumes sh: "shadows s H" and body: "pos s t = CBody i op n p d"
    and x: "\<And>k. interp_key p = Some k \<Longrightarrow> key_held k x"
  shows "shadows (sets_interp (put_view (interp_key p) x (devs s)) i (Some q) s) H"
    (is "shadows ?s' H")
proof (rule shadows_step [OF sh, where t = t and a = "CBody i op n p d" and I = "Some i"
      and K = "interp_key p"])
  show "pos ?s' = (pos s)(t := CBody i op n p d)" using body by auto
  show "mutex_books locks ((pos s)(t := CBody i op n p d)) (guard ?s')"
    using mutex_stay [OF shadowsD(3) [OF sh], of "CBody i op n p d" t] body by simp
  show "Some i = Some j \<Longrightarrow> u \<noteq> t \<Longrightarrow> body_of (pos s u) \<noteq> Some j" for u j
    using lock_exclusive [OF sh, of t i u] body by simp
  show "interp_key p = Some k \<Longrightarrow> u \<noteq> t \<Longrightarrow> uses (pos s u) \<noteq> Some k" for u k
    using shadowsD(9) [OF sh, of t k u] body by auto
  show "body_ok (CBody i op n p d) (memory ?s') H" using shadowsD(4) [OF sh, of t] body by simp
  show "interp_key p \<noteq> Some k \<Longrightarrow> cell_eq k (devs s) (devs ?s') \<and> cell_eq k (devices H) (devices H)" for k
    by (simp add: put_view_other)
  show "cell_ok (CBody i op n p d) k (devs ?s') (devices H) \<and> allocated (memory ?s') k"
    if "interp_key p = Some k" for k
    using shadowsD(6, 7) [OF sh, of t k] body x [OF that] put_view_held [OF that, of x "devs s"] that
    by simp
qed (use body shadowsD(1, 2) [OF sh] in simp_all)

text \<open>A thread that goes in, and one that drops the last reference.\<close>

lemma shadows_body:
  assumes inv: "host_inv H" and sh: "shadows s H" and held: "pos s t = CHeld i op n"
    and p: "interps (memory s) i = Some p"
  shows "shadows (moves t (CBody i op n p (devs s)) s) H" (is "shadows ?s' H")
proof -
  have free: "u \<noteq> t \<Longrightarrow> body_of (pos s u) \<noteq> Some i" for u
    using lock_exclusive [OF sh, of t i u] held by simp
  then have none: "body_of (pos s u) \<noteq> Some i" for u using held by (cases "u = t") simp_all
  have pH: "interps H i = Some p" using shadowsD(5) [OF sh none] p by simp
  have unused: "interp_key p = Some k \<Longrightarrow> u \<noteq> t \<Longrightarrow> uses (pos s u) \<noteq> Some k" for k u
    by (rule lease_unused [OF inv sh pH]) (use free in auto)
  show ?thesis
  proof (rule shadows_step [OF sh, where t = t and I = "Some i" and K = "interp_key p"])
    show "mutex_books locks ((pos s)(t := CBody i op n p (devs s))) (guard ?s')"
      using mutex_stay [OF shadowsD(3) [OF sh], of "CBody i op n p (devs s)" t] held by simp
    show "cell_ok (CBody i op n p (devs s)) k (devs ?s') (devices H) \<and> allocated (memory ?s') k"
      if k: "interp_key p = Some k" for k
    proof -
      have "uses (pos s u) \<noteq> Some k" for u using unused [OF k, of u] held by (cases "u = t") simp_all
      then have eq: "cell_eq k (devs s) (devices H)" by (rule shadowsD(8) [OF sh])
      have owned: "holder H i = Some k" using pH k by (simp add: holder_def)
      then have "key_held k (devices H)" "allocated H k"
        using inv lease_books_held [of key_held "holder H" "devices H" k] by (auto simp: host_inv_def)
      with eq cell_eq_held [OF eq] shadow_allocated [OF sh] show ?thesis by simp
    qed
  qed (use free unused held p pH shadowsD(1, 2) [OF sh] in simp_all)
qed

lemma shadows_drop:
  assumes inv: "host_inv H" and sh: "shadows s H" and "pos s t = CIdle"
    and p: "interps (memory s) i = Some p" and "\<And>u. keeps (pos s u) \<noteq> Some i"
    and s': "s' = moves t (case interp_key p of None \<Rightarrow> CIdle | Some k \<Rightarrow> CDrop k)
      (sets_interp (devs s) i None s)"
  shows "interps H i = Some p"
    and "shadows s' (H\<lparr>devices := interp_drop p (devices H), interps := (interps H)(i := None)\<rparr>)"
proof -
  have free: "body_of (pos s u) \<noteq> Some i" for u
    using assms(5) [of u] by (cases "pos s u") auto
  show pH: "interps H i = Some p" using shadowsD(5) [OF sh free] p by simp
  have unused: "interp_key p = Some k \<Longrightarrow> u \<noteq> t \<Longrightarrow> uses (pos s u) \<noteq> Some k" for k u
    by (rule lease_unused [OF inv sh pH]) (use free in auto)
  let ?a = "case interp_key p of None \<Rightarrow> CIdle | Some k \<Rightarrow> CDrop k"
  let ?H = "H\<lparr>devices := interp_drop p (devices H), interps := (interps H)(i := None)\<rparr>"
  show "shadows s' ?H"
  proof (rule shadows_step [OF sh, where t = t and I = "Some i" and K = "interp_key p"])
    show "pos s' = (pos s)(t := ?a)" using s' by simp
    show "mutex_books locks ((pos s)(t := ?a)) (guard s')"
      using mutex_stay [OF shadowsD(3) [OF sh], of ?a t] assms(3) s' by (simp split: option.splits)
    show "interp_key p \<noteq> Some k \<Longrightarrow> cell_eq k (devs s) (devs s') \<and> cell_eq k (devices H) (devices ?H)" for k
      using s' cell_eq_release_other [of k _ "devices H"]
      by (auto simp: interp_drop_key split: option.splits)
    show "cell_ok ?a k (devs s') (devices ?H) \<and> allocated (memory s') k"
      if k: "interp_key p = Some k" for k
    proof -
      have "uses (pos s u) \<noteq> Some k" for u
        using unused [OF k, of u] assms(3) by (cases "u = t") simp_all
      then have eq: "cell_eq k (devs s) (devices H)" by (rule shadowsD(8) [OF sh])
      have owned: "holder H i = Some k" using pH k by (simp add: holder_def)
      then have "key_held k (devices H)" "allocated H k"
        using inv lease_books_held [of key_held "holder H" "devices H" k] by (auto simp: host_inv_def)
      with k s' eq cell_eq_held [OF eq] cell_eq_release [OF eq] shadow_allocated [OF sh]
      show ?thesis by (simp add: interp_drop_key leases.kheld_after_rel)
    qed
  qed (use free unused assms(3) s' shadowsD(1, 2) [OF sh] in \<open>auto split: option.splits\<close>)
qed

lemma shadows_new:
  assumes sh: "shadows s H" and "pos s t = CIdle"
    and k: "k = NoiseKey a \<and> a \<notin> noise_handles (memory s)
        \<and> s' = s\<lparr>memory := (memory s)\<lparr>devices := set_noise a x (devs s), noise_handles := insert a (noise_handles (memory s))\<rparr>\<rparr>
        \<and> H' = H\<lparr>devices := set_noise a x (devices H), noise_handles := insert a (noise_handles H)\<rparr>
      \<or> k = ColdcardKey a \<and> a \<notin> coldcard_handles (memory s)
        \<and> s' = s\<lparr>memory := (memory s)\<lparr>devices := set_coldcard a y (devs s), coldcard_handles := insert a (coldcard_handles (memory s))\<rparr>\<rparr>
        \<and> H' = H\<lparr>devices := set_coldcard a y (devices H), coldcard_handles := insert a (coldcard_handles H)\<rparr>"
  shows "shadows s' H'"
proof (rule shadows_step [OF sh, where t = t and a = CIdle and I = None and K = "Some k"])
  show "pos s' = (pos s)(t := CIdle)" using k assms(2) by auto
  show "mutex_books locks ((pos s)(t := CIdle)) (guard s')"
    using shadowsD(3) [OF sh] mutex_stay [OF shadowsD(3) [OF sh], of CIdle t] assms(2) k by auto
  show "Some k \<noteq> Some j \<Longrightarrow> cell_eq j (devs s) (devs s') \<and> cell_eq j (devices H) (devices H')" for j
    using k by (cases j) auto
  show "Some k = Some j \<Longrightarrow> uses (pos s u) \<noteq> Some j" for u j
    using shadowsD(7) [OF sh, of u k] k by auto
  show "allocated (memory s) j \<Longrightarrow> allocated (memory s') j" for j using k by (cases j) auto
qed (use k assms(2) shadowsD(1, 2) [OF sh] in auto)

text \<open>
  The simulation: after a step of a thread there is a step of the sequential host, or none, that
  leaves it again the shadow of the state, and its history is the one the threads have made.
\<close>

definition shadowed ::
    "crates \<Rightarrow> ('m, 'c, 'n, 'e) families \<Rightarrow> 'n noise_crate \<Rightarrow> (bytes \<Rightarrow> 'e) \<Rightarrow> ('m, 'n, 'e) csys \<Rightarrow> bool" where
  "shadowed C F N engine_new s \<longleftrightarrow> (\<exists>H. host_trace C F N engine_new (history s) H \<and> shadows s H)"

lemma shadowed_quiet:
  assumes "host_trace C F N engine_new (history s) H" and "host_step C F N engine_new H H'"
    and "unrecorded H H'" and "history s' = history s" and "shadows s' H'"
  shows "shadowed C F N engine_new s'"
  using trace_other [OF assms(1-3)] assms(4, 5) by (auto simp: shadowed_def)

lemma key_acquire_free: "\<not> key_held k d \<Longrightarrow> \<exists>e. key_acquire k d = Some e"
  using leases.kacq_free by blast

lemma moves_idle: "pos s t = CIdle \<Longrightarrow> moves t CIdle (s\<lparr>memory := m\<rparr>) = s\<lparr>memory := m\<rparr>"
  by (cases s) (simp add: fun_upd_idem)

lemma other_simulated:
  assumes trace: "host_trace C F N engine_new (history s) H" and sh: "shadows s H"
    and "pos s t = CIdle" and new: "interps (memory s) i = None" and p: "owns_nothing F p"
    and s': "s' = sets_interp (devs s) i (Some p) s"
  shows "shadowed C F N engine_new s'"
proof -
  have "s' = moves t CIdle (sets_interp (devs s) i (Some p) s)"
    unfolding s' by (rule moves_idle [OF assms(3), symmetric])
  note pub = shadows_publish [OF sh this _ new refl, of "devices H"]
  have "host_step C F N engine_new H (H\<lparr>interps := (interps H)(i \<mapsto> p)\<rparr>)"
    using pub(1) assms(3) p by (intro host_step.make_other) simp_all
  then show ?thesis
    using pub(2) assms(3) s' owns_nothing_unrecorded [OF p, of _ H i]
    by (intro shadowed_quiet [OF trace]) simp_all
qed

text \<open>A constructor with a lease, given that the sequential one does the same at once.\<close>

lemma lent_free:
  assumes "shadows s H" and "lent (pos s t) = Some k"
  shows "uses (pos s t) = Some k" "locks (pos s t) = None" "\<not> key_held k (devices H)"
    "cell_eq k (key_release k (devs s)) (devices H)" "allocated H k"
proof -
  show u: "uses (pos s t) = Some k" and "locks (pos s t) = None"
    using assms(2) by (cases "pos s t"; simp)+
  from shadowsD(6) [OF assms(1) u] assms(2)
  show "\<not> key_held k (devices H)" "cell_eq k (key_release k (devs s)) (devices H)"
    by (cases "pos s t"; simp)+
  show "allocated H k" using shadowsD(7) [OF assms(1) u] shadow_allocated [OF assms(1)] by simp
qed

lemma constructor_simulated:
  assumes sh: "shadows s H" and lent: "lent (pos s t) = Some k"
    and new: "interps (memory s) i = None"
    and s': "s' = (moves t CIdle (sets_interp (devs s) i (Some p) s))\<lparr>history := history s @ [ev]\<rparr>"
    and make: "\<And>e. key_acquire k (devices H) = Some e \<Longrightarrow> interps H i = None \<Longrightarrow> allocated H k \<Longrightarrow>
      host_trace C F N engine_new (history s @ [ev]) (H\<lparr>devices := e, interps := (interps H)(i \<mapsto> p)\<rparr>)"
  shows "shadowed C F N engine_new s'"
proof -
  note free = lent_free [OF sh lent]
  from key_acquire_free [OF free(3)] obtain e where e: "key_acquire k (devices H) = Some e" by blast
  let ?s = "moves t CIdle (sets_interp (devs s) i (Some p) s)"
  note pub = shadows_publish [where s' = ?s and p = p, OF sh refl free(2) new free(1), of e]
  have "shadows s' (H\<lparr>devices := e, interps := (interps H)(i \<mapsto> p)\<rparr>)"
    using pub(2) e unfolding s' shadows_log by simp
  then show ?thesis using make [OF e] pub(1) e free(5) s' by (auto simp: shadowed_def)
qed

text \<open>An export that succeeds: the sequential one, at the moment of the store.\<close>

lemma noise_export_free:
  assumes "\<not> is_leased (nh_state h)"
  shows "noise_export N h = (h, Inr (noise_config_from (noise_state_data N (cell (nh_state h)))))"
  using assms by (cases h; cases "nh_state h")
    (simp add: noise_export_def with_leased_def acquire_def release_def)

lemma set_noise_same [simp]: "set_noise a (noises d a) d = d"
  by (cases d) (simp add: set_noise_def)

lemma export_simulated:
  assumes trace: "host_trace C F N engine_new (history s) H" and sh: "shadows s H"
    and at: "pos s t = CExport a"
    and s': "s' = (moves t CIdle (sets_devs (key_release (NoiseKey a) (devs s)) s))\<lparr>history := history s
      @ [Exported a (Inr (noise_config_from (noise_state_data N (get_leased (nh_state (noises (devs s) a))))))]\<rparr>"
  shows "shadowed C F N engine_new s'"
proof -
  have lent: "lent (pos s t) = Some (NoiseKey a)" using at by simp
  note free = lent_free [OF sh lent]
  have same: "get_leased (nh_state (noises (devs s) a)) = cell (nh_state (noises (devices H) a))"
    using free(4) by (simp add: get_leased_def) (metis release_simps(1))
  have "\<not> is_leased (nh_state (noises (devices H) a))" using free(3) by simp
  note export = noise_export_free [OF this, of N]
  have "host_trace C F N engine_new (history s') H"
    using trace_export [OF trace _ export] free(5) unfolding s' same by simp
  moreover have "shadows s' H"
    unfolding s' shadows_log by (rule shadows_store [OF sh refl free(1, 2)])
  ultimately show ?thesis by (auto simp: shadowed_def)
qed

text \<open>
  A refusal. Unless some call on the handle has the flag up at this moment, the cell is held in the
  sequential run as well, which refuses it with the same words.
\<close>

lemma held_shadow:
  assumes sh: "shadows s H" and "key_held k (devs s)" and "\<nexists>u. lent (pos s u) = Some k"
  shows "key_held k (devices H)"
proof (cases "\<exists>u. uses (pos s u) = Some k")
  case True
  then obtain u where u: "uses (pos s u) = Some k" by blast
  from shadowsD(6) [OF sh u] u assms(3) show ?thesis
    by (cases "pos s u") (auto dest: spec [of _ u])
next
  case False
  from shadowsD(8) [OF sh, of k] False assms(2) cell_eq_held show ?thesis by blast
qed

lemma refused_simulated:
  assumes trace: "host_trace C F N engine_new (history s) H" and sh: "shadows s H"
    and "key_held k (devs s)" and s': "s' = refused_by k ev s"
    and refuse: "key_held k (devices H) \<Longrightarrow> host_trace C F N engine_new (history s @ [ev]) H"
  shows "shadowed C F N engine_new s'"
proof (cases "\<exists>u. lent (pos s u) = Some k")
  case True
  with trace sh s' show ?thesis by (auto simp: shadowed_def refused_by_def)
next
  case False
  with held_shadow [OF sh assms(3)] refuse sh s' show ?thesis
    by (auto simp: shadowed_def refused_by_def)
qed

text \<open>The three calls that can be refused, and what they say.\<close>

lemma noise_export_Inl:
  "noise_export N h = (h', Inl e) \<longleftrightarrow> is_leased (nh_state h) \<and> h' = h
     \<and> e = BadState ''noise handle is in use by an interpreter''"
  by (cases h; cases "nh_state h")
    (auto simp: noise_export_def with_leased_def acquire_def bad_state_def)

lemma new_bitbox_refused:
  "new_bitbox F a network d = (d', Inl e) \<longleftrightarrow> key_held (NoiseKey a) d \<and> d' = d
     \<and> e = BadState ''noise handle is already leased''"
  by (auto simp: new_bitbox_def acquire_def bad_state_def)

lemma new_coldcard_refused:
  "new_coldcard F a d = (d', Inl e) \<longleftrightarrow> key_held (ColdcardKey a) d \<and> d' = d
     \<and> e = BadState ''coldcard encryption is already leased''"
  by (auto simp: new_coldcard_def acquire_def bad_state_def)

lemma host_same_devices [simp]: "H\<lparr>devices := devices H\<rparr> = (H :: ('m, 'n, 'e) host)"
  by (cases H) simp

text \<open>The moment a call takes effect.\<close>

lemma finish_simulated:
  assumes trace: "host_trace C F N engine_new (history s) H" and sh: "shadows s H"
    and body: "pos s t = CBody i op n p d" and call: "interp_call C F op p d = (p', d', r)"
    and s': "s' = (moves t (CLeave i op n (Some r))
      (sets_interp (put_view (interp_key p) d' (devs s)) i (Some p') s))
        \<lparr>history := history s @ [Called i op r]\<rparr>"
  shows "shadowed C F N engine_new s'"
proof -
  have inv: "host_inv H" by (rule host_system.reachable_inv [OF traced_reachable [OF trace]])
  have pH: "interps H i = Some p" using shadowsD(4) [OF sh, of t] body by simp
  have wf: "wf_interp p" using inv pH by (simp add: host_inv_def)
  have "view_eq (interp_key p) d (devices H)"
    using shadowsD(6) [OF sh, of t] body by (simp add: view_eq_def)
  from same_outcomeD [OF interp_call_local [OF wf this] call] obtain e
    where callH: "interp_call C F op p (devices H) = (p', e, r)" and view: "view_eq (interp_key p) d' e"
    by blast
  have "shadows s' (H\<lparr>devices := e, interps := (interps H)(i \<mapsto> p')\<rparr>)"
  proof (rule shadows_leave [OF sh body s'])
    show "interp_key p = Some k \<Longrightarrow> cell_eq k (put_view (interp_key p) d' (devs s)) e" for k
      using view cell_eq_trans [OF cell_eq_sym [OF put_view_eq]] by (simp add: view_eq_def)
  qed (use untouched_cell [OF interp_call_untouched [OF wf callH]] put_view_other in blast)
  with trace_call [OF trace pH callH] s' show ?thesis by (auto simp: shadowed_def)
qed

text \<open>What a panic leaves of the borrowed cell.\<close>

lemma torn_agrees:
  assumes sh: "shadows s H" and body: "pos s t = CBody i op n p d" and live: "live_session p = Some ses"
  shows "agree_outside (ses_lease ses) (devices H) (put_view (interp_key p) (devs s) (devices H))"
    and "interps H i = Some p" and "interp_key p = lease_key_of (ses_lease ses)"
proof -
  show key: "interp_key p = lease_key_of (ses_lease ses)"
    using live by (simp add: interp_key_def live_session_eq)
  have "interp_key p = Some k \<Longrightarrow> key_held k (devs s) = key_held k (devices H)" for k
    using shadowsD(6) [OF sh, of t k] body by simp
  from put_view_agree [OF this [unfolded key]]
  show "agree_outside (ses_lease ses) (devices H) (put_view (interp_key p) (devs s) (devices H))"
    by (simp only: key)
  show "interps H i = Some p" using shadowsD(4) [OF sh, of t] body by simp
qed

lemma panic_simulated:
  assumes trace: "host_trace C F N engine_new (history s) H" and sh: "shadows s H"
    and body: "pos s t = CBody i (Op sop) n p d" and live: "live_session p = Some ses"
    and wf: "wf_session ses'" "ses_lease ses' = ses_lease ses"
    and s': "s' = moves t (CLeave i (Op sop) n None)
      (sets_interp (devs s) i (Some \<lparr>poisoned = True, guarded = Some ses'\<rparr>) s)"
  shows "shadowed C F N engine_new s'"
proof -
  note torn = torn_agrees [OF sh body live]
  let ?q = "\<lparr>poisoned = True, guarded = Some ses'\<rparr>"
  let ?H = "H\<lparr>devices := put_view (interp_key p) (devs s) (devices H), interps := (interps H)(i \<mapsto> ?q)\<rparr>"
  have "s' = (moves t (CLeave i (Op sop) n None) (sets_interp (devs s) i (Some ?q) s))
      \<lparr>history := history s\<rparr>" unfolding s' by simp
  then have "shadows s' ?H"
    by (rule shadows_leave [OF sh body]) (simp_all add: put_view_other put_view_eq)
  moreover have "host_step C F N engine_new H ?H"
    using torn live wf by (intro host_step.panic)
  ultimately show ?thesis
    using s' panic_unrecorded [OF torn(2) live] wf(2) by (intro shadowed_quiet [OF trace]) auto
qed

lemma panic_end_simulated:
  assumes trace: "host_trace C F N engine_new (history s) H" and sh: "shadows s H"
    and body: "pos s t = CBody i EndOp n p d" and live: "live_session p = Some ses"
    and s': "s' = moves t (CLeave i EndOp n None)
      (sets_interp (drop_lease (ses_lease ses) (devs s)) i (Some \<lparr>poisoned = True, guarded = None\<rparr>) s)"
  shows "shadowed C F N engine_new s'"
proof -
  note torn = torn_agrees [OF sh body live]
  let ?q = "\<lparr>poisoned = True, guarded = None\<rparr>" and ?l = "ses_lease ses"
  let ?h = "put_view (interp_key p) (devs s) (devices H)"
  let ?H = "H\<lparr>devices := drop_lease ?l ?h, interps := (interps H)(i \<mapsto> ?q)\<rparr>"
  have "s' = (moves t (CLeave i EndOp n None) (sets_interp (drop_lease ?l (devs s)) i (Some ?q) s))
      \<lparr>history := history s\<rparr>" unfolding s' by simp
  then have "shadows s' ?H"
  proof (rule shadows_leave [OF sh body])
    show "interp_key p \<noteq> Some k \<Longrightarrow> cell_eq k (devs s) (drop_lease ?l (devs s))
        \<and> cell_eq k (devices H) (drop_lease ?l ?h)" for k
      using cell_eq_trans [OF put_view_other] drop_other unfolding torn(3) by blast
    show "interp_key p = Some k \<Longrightarrow> cell_eq k (drop_lease ?l (devs s)) (drop_lease ?l ?h)" for k
      unfolding torn(3) drop_lease_key by (simp add: cell_eq_release put_view_eq)
  qed
  moreover have "host_step C F N engine_new H ?H"
    using torn live by (intro host_step.panic_end)
  ultimately show ?thesis
    using s' panic_unrecorded [OF torn(2) live] by (intro shadowed_quiet [OF trace]) auto
qed

lemma conc_step_simulated:
  assumes step: "conc_step C F N engine_new t s s'" and "shadowed C F N engine_new s"
  shows "shadowed C F N engine_new s'"
proof -
  from assms(2) obtain H where trace: "host_trace C F N engine_new (history s) H" and sh: "shadows s H"
    by (auto simp: shadowed_def)
  have inv: "host_inv H" by (rule host_system.reachable_inv [OF traced_reachable [OF trace]])
  have stutter: ?thesis if "history s' = history s" "shadows s' H"
    using that trace by (auto simp: shadowed_def)
  from step show ?thesis
  proof cases
    case (c_noise a config h)
    then have "shadows s' (H\<lparr>devices := set_noise a h (devices H), noise_handles := insert a (noise_handles H)\<rparr>)"
      by (intro shadows_new [OF sh, of t "NoiseKey a" a]) simp_all
    with c_noise shadowsD(1) [OF sh] show ?thesis
      by (intro shadowed_quiet [OF trace host_step.make_noise]) (auto intro: same_interps_unrecorded)
  next
    case (c_coldcard a rng)
    then have "shadows s' (H\<lparr>devices := set_coldcard a (coldcard_encryption_new engine_new rng) (devices H),
        coldcard_handles := insert a (coldcard_handles H)\<rparr>)"
      by (intro shadows_new [OF sh, of t "ColdcardKey a" a]) simp_all
    with c_coldcard shadowsD(2) [OF sh] show ?thesis
      by (intro shadowed_quiet [OF trace host_step.make_coldcard]) (auto intro: same_interps_unrecorded)
  next
    case (c_take_code a h r)
    with take_pairing_code_lease [OF c_take_code(3)] show ?thesis
      by (intro stutter) (auto intro: shadows_code [OF sh])
  next
    case (c_hook i op n p d a h code)
    then show ?thesis by (intro stutter) (auto intro: shadows_code [OF sh])
  next
    case (c_bitbox a network i)
    show ?thesis
    proof (rule constructor_simulated [OF sh _ c_bitbox(3, 1)])
      fix e assume e: "key_acquire (NoiseKey a) (devices H) = Some e" "interps H i = None"
        "allocated H (NoiseKey a)"
      have "new_bitbox F a network (devices H) = (e, Inr (interp_build
          (BitBoxI a (bitbox_new F (network_to_core network))) KBitBox (LeaseNoise a)))"
        using e(1) by (simp add: new_bitbox_def del: key_acquire.simps)
      with e trace_bitbox [OF trace] show "host_trace C F N engine_new
          (history s @ [BuiltBitbox a network (Inr i)]) (H\<lparr>devices := e, interps := (interps H)(i \<mapsto>
          interp_build (BitBoxI a (bitbox_new F (network_to_core network))) KBitBox (LeaseNoise a))\<rparr>)"
        by simp
    qed (simp add: c_bitbox(2))
  next
    case (c_coldcard_interp a i)
    show ?thesis
    proof (rule constructor_simulated [OF sh _ c_coldcard_interp(3, 1)])
      fix e assume e: "key_acquire (ColdcardKey a) (devices H) = Some e" "interps H i = None"
        "allocated H (ColdcardKey a)"
      have "new_coldcard F a (devices H) = (e, Inr (interp_build (ColdcardI a (coldcard_new F))
          KColdcard (LeaseColdcard a)))"
        using e(1) by (simp add: new_coldcard_def del: key_acquire.simps)
      with e trace_coldcard [OF trace] show "host_trace C F N engine_new
          (history s @ [BuiltColdcard a (Inr i)]) (H\<lparr>devices := e, interps := (interps H)(i \<mapsto>
          interp_build (ColdcardI a (coldcard_new F)) KColdcard (LeaseColdcard a))\<rparr>)"
        by simp
    qed (simp add: c_coldcard_interp(2))
  next
    case (c_export_store a)
    show ?thesis by (rule export_simulated [OF trace sh c_export_store(2, 1)])
  next
    case (c_export_refused a h e)
    show ?thesis
    proof (rule refused_simulated [OF trace sh _ c_export_refused(1)])
      show "key_held (NoiseKey a) (devices H) \<Longrightarrow>
          host_trace C F N engine_new (history s @ [Exported a (Inl e)]) H"
        using trace_export [OF trace, of a "noises (devices H) a" "Inl e"] c_export_refused(3, 4)
        by (simp add: noise_export_Inl shadowsD(1) [OF sh])
    qed (use c_export_refused(4) in \<open>simp add: noise_export_Inl\<close>)
  next
    case (c_bitbox_refused a network d e)
    show ?thesis
    proof (rule refused_simulated [OF trace sh _ c_bitbox_refused(1)])
      show "key_held (NoiseKey a) (devices H) \<Longrightarrow>
          host_trace C F N engine_new (history s @ [BuiltBitbox a network (Inl e)]) H"
        using trace_bitbox_refused [OF trace, of a network "devices H" e] c_bitbox_refused(3, 4)
        by (simp add: new_bitbox_refused shadowsD(1) [OF sh])
    qed (use c_bitbox_refused(4) in \<open>simp add: new_bitbox_refused\<close>)
  next
    case (c_coldcard_refused a d e)
    show ?thesis
    proof (rule refused_simulated [OF trace sh _ c_coldcard_refused(1)])
      show "key_held (ColdcardKey a) (devices H) \<Longrightarrow>
          host_trace C F N engine_new (history s @ [BuiltColdcard a (Inl e)]) H"
        using trace_coldcard_refused [OF trace, of a "devices H" e] c_coldcard_refused(3, 4)
        by (simp add: new_coldcard_refused shadowsD(2) [OF sh])
    qed (use c_coldcard_refused(4) in \<open>simp add: new_coldcard_refused\<close>)
  next
    case (c_enter i op)
    then show ?thesis
      by (intro stutter shadows_stay [OF sh, of s' t "CWait i op (length (history s))"])
        (auto intro: mutex_stay shadowsD(3) [OF sh])
  next
    case (c_lock i op n)
    then show ?thesis
      by (intro stutter shadows_stay [OF sh, of s' t "CHeld i op n"])
        (auto intro: mutex_lock shadowsD(3) [OF sh])
  next
    case (c_unlock i op n r)
    then show ?thesis
      by (intro stutter shadows_stay [OF sh, of s' t CIdle])
        (auto intro: mutex_unlock shadowsD(3) [OF sh])
  next
    case (c_drop i p)
    note drop = shadows_drop [OF inv sh c_drop(2, 3) _ c_drop(1)]
    with c_drop show ?thesis
      by (intro shadowed_quiet [OF trace host_step.drop_interp]) (auto intro: drop_unrecorded)
  next
    case (c_export_swap a d)
    then show ?thesis by (intro stutter shadows_swap [OF sh c_export_swap(1)]) auto
  next
    case (c_bitbox_swap a d network)
    then show ?thesis by (intro stutter shadows_swap [OF sh c_bitbox_swap(1)]) auto
  next
    case (c_coldcard_swap a d)
    then show ?thesis by (intro stutter shadows_swap [OF sh c_coldcard_swap(1)]) auto
  next
    case (c_body i op n p)
    then show ?thesis using shadows_body [OF inv sh c_body(2, 3)] by (intro stutter) simp_all
  next
    case (c_tear i op n p d x q)
    then show ?thesis using shadows_tear [OF sh c_tear(2), of x q] by (intro stutter) auto
  next
    case (c_drop_store k)
    then show ?thesis by (intro stutter shadows_store [OF sh c_drop_store(1)]) auto
  next
    case (c_other i p)
    show ?thesis by (rule other_simulated [OF trace sh c_other(2-4, 1)])
  next
    case (c_finish i op n p d p' d' r)
    show ?thesis by (rule finish_simulated [OF trace sh c_finish(2, 3, 1)])
  next
    case (c_panic i sop n p d ses ses')
    show ?thesis by (rule panic_simulated [OF trace sh c_panic(2-5, 1)])
  next
    case (c_panic_end i n p d ses)
    show ?thesis by (rule panic_end_simulated [OF trace sh c_panic_end(2, 3, 1)])
  qed
qed

section \<open>Histories of overlapping calls\<close>

text \<open>
  A call is in time: when it returns a result, its event is in the history, at a place the history
  had not reached when the call was made.
\<close>

fun in_time :: "call_event list \<Rightarrow> ('m, 'n, 'e) cposition \<Rightarrow> bool" where
  "in_time h (CWait i op n) \<longleftrightarrow> n \<le> length h"
| "in_time h (CHeld i op n) \<longleftrightarrow> n \<le> length h"
| "in_time h (CBody i op n p d) \<longleftrightarrow> n \<le> length h"
| "in_time h (CLeave i op n (Some r)) \<longleftrightarrow> (\<exists>m. n \<le> m \<and> m < length h \<and> h ! m = Called i op r)"
| "in_time h _ \<longleftrightarrow> True"

lemma in_time_snoc: "in_time h a \<Longrightarrow> in_time (h @ [ev]) a"
  by (cases "(h, a)" rule: in_time.cases) (auto simp: nth_append intro: less_SucI)

lemma in_time_last: "n \<le> length h \<Longrightarrow> in_time (h @ [Called i op r]) (CLeave i op n (Some r))"
  by (auto intro!: exI [of _ "length h"])

lemma in_time_step:
  assumes "conc_step C F N engine_new t s s'" and "\<forall>u. in_time (history s) (pos s u)"
  shows "\<forall>u. in_time (history s') (pos s' u)"
proof -
  note now = spec [OF assms(2)] and mine = spec [OF assms(2), of t]
  from assms(1) show ?thesis
  proof cases
    case (c_finish i op n p d p' d' r)
    with mine have "n \<le> length (history s)" by simp
    from in_time_last [OF this] show ?thesis
      unfolding c_finish(1) using in_time_snoc [OF now] by simp
  qed (use now mine in \<open>auto simp: refused_by_def intro!: in_time_snoc split: option.splits\<close>)
qed

text \<open>The refusals that are recorded apart: a handle in use, by an export or a constructor.\<close>

fun in_use :: "call_event \<Rightarrow> bool" where
  "in_use (Called i op r) \<longleftrightarrow> False"
| "in_use (Exported a r) \<longleftrightarrow> r = Inl (BadState ''noise handle is in use by an interpreter'')"
| "in_use (BuiltBitbox a network r) \<longleftrightarrow> r = Inl (BadState ''noise handle is already leased'')"
| "in_use (BuiltColdcard a r) \<longleftrightarrow> r = Inl (BadState ''coldcard encryption is already leased'')"

lemma in_use_step:
  assumes "conc_step C F N engine_new t s s'" and "\<forall>ev \<in> set (busy s). in_use ev"
  shows "\<forall>ev \<in> set (busy s'). in_use ev"
  using assms(1)
proof cases
  case (c_export_refused a h e)
  with assms(2) show ?thesis by (auto simp: refused_by_def noise_export_Inl)
next
  case (c_bitbox_refused a network d e)
  with assms(2) show ?thesis by (auto simp: refused_by_def new_bitbox_refused)
next
  case (c_coldcard_refused a d e)
  with assms(2) show ?thesis by (auto simp: refused_by_def new_coldcard_refused)
qed (use assms(2) in simp_all)

interpretation overlapping: invariant_system conc_init "conc_next C F N engine_new"
    "\<lambda>s. shadowed C F N engine_new s \<and> (\<forall>u. in_time (history s) (pos s u))
    \<and> (\<forall>ev \<in> set (busy s). in_use ev)"
  for C and F :: "('m, 'c, 'n, 'e) families" and N engine_new
proof
  fix s :: "('m, 'n, 'e) csys"
  assume init: "conc_init s"
  then have "host_trace C F N engine_new (history s) (memory s)"
    by (auto simp: conc_init_def intro: trace_init)
  moreover have "shadows s (memory s)"
    using init by (auto simp: conc_init_def shadows_def mutex_books_def)
  ultimately show "shadowed C F N engine_new s \<and> (\<forall>u. in_time (history s) (pos s u))
    \<and> (\<forall>ev \<in> set (busy s). in_use ev)"
    using init by (auto simp: shadowed_def conc_init_def)
next
  fix s s' :: "('m, 'n, 'e) csys"
  assume inv: "shadowed C F N engine_new s \<and> (\<forall>u. in_time (history s) (pos s u))
    \<and> (\<forall>ev \<in> set (busy s). in_use ev)"
    and "conc_next C F N engine_new s s'"
  then show "shadowed C F N engine_new s' \<and> (\<forall>u. in_time (history s') (pos s' u))
    \<and> (\<forall>ev \<in> set (busy s'). in_use ev)"
    using conc_step_simulated in_time_step in_use_step unfolding conc_next_def by metis
qed

text \<open>What every event of a history says, and so, in any of the two systems, every result.\<close>

lemma trace_signed:
  assumes "host_trace C F N engine_new evs H" and "sighash_ok C" and "m < length evs"
    and "evs ! m = Called i EndOp (Inr (Ended (HwiSignedPsbt text)))"
  shows "\<exists>j input pol request result. last_start (take m evs) i j (SignPsbt input pol)
    \<and> decode_psbt C input = Inr request
    \<and> text = encode_psbt C result \<and> signing_faithful C request result"
  using assms(1, 3, 4)
proof (induction rule: host_trace.induct)
  case (trace_call evs s i' p op p' d r)
  show ?case
  proof (cases "m < length evs")
    case True
    with trace_call.IH trace_call.prems show ?thesis by (simp add: nth_append)
  next
    case False
    with trace_call.prems have m: "m = length evs" by simp
    with trace_call.prems have ev: "i' = i" "op = EndOp" "r = Inr (Ended (HwiSignedPsbt text))"
      by simp_all
    from end_started [OF trace_call.hyps(1, 2) trace_call.hyps(3) [unfolded ev]]
      signed_end [OF assms(2)] m ev show ?thesis by (simp, blast)
  qed
qed (auto simp: nth_append less_Suc_eq split: if_splits)

section \<open>Linearizability\<close>

text \<open>
  C8: overlapping calls are linearizable. Whatever the threads of a host do, in any order, there is
  a run of the sequential host with the very same history of calls and results: \<open>start\<close>,
  \<open>exchange\<close>, \<open>end\<close>, \<open>export\<close> and the constructors that take a lease, refused ones included. Every
  result a thread returns with from an interpreter is in that history, at a place within its own
  call; the others take effect in one step of theirs. When all threads are idle, the interpreters
  and the flags and contents of the leased cells are those of the sequential run; what is in a
  pairing-code slot is not compared. The one exception is recorded apart, in \<open>busy\<close>: an export or
  a constructor that met the flag of another such call, or of a drop, on the same handle. All that
  ever happens to these is that they are refused, with the words for a handle in use.
\<close>

theorem calls_linearizable:
  assumes "reachable conc_init (conc_next C F N engine_new) s"
  shows "(\<exists>H. host_trace C F N engine_new (history s) H
      \<and> (\<forall>t i op n r. pos s t = CLeave i op n (Some r) \<longrightarrow>
          (\<exists>m. n \<le> m \<and> m < length (history s) \<and> history s ! m = Called i op r))
      \<and> ((\<forall>t. pos s t = CIdle) \<longrightarrow>
          interps H = interps (memory s) \<and> (\<forall>k. cell_eq k (devs s) (devices H))))
    \<and> (\<forall>ev \<in> set (busy s). in_use ev)"
proof -
  from overlapping.reachable_inv [OF assms] obtain H where H: "host_trace C F N engine_new (history s) H"
    and sh: "shadows s H" and time: "\<And>t. in_time (history s) (pos s t)"
    and refused: "\<forall>ev \<in> set (busy s). in_use ev"
    by (auto simp: shadowed_def)
  have "pos s t = CLeave i op n (Some r) \<Longrightarrow>
      \<exists>m. n \<le> m \<and> m < length (history s) \<and> history s ! m = Called i op r" for t i op n r
    using time [of t] by simp
  moreover have "interps H = interps (memory s) \<and> (\<forall>k. cell_eq k (devs s) (devices H))"
    if "\<forall>t. pos s t = CIdle"
    using that shadowsD(5, 8) [OF sh] by (auto simp: fun_eq_iff)
  ultimately show ?thesis using H refused by blast
qed

text \<open>
  C9: signing is faithful however calls overlap. In every history that threads can make, an
  \<open>end\<close> that returned a signed PSBT comes after a \<open>SignPsbt\<close>, the last command started on that
  interpreter before it, and what it returned is faithful to the PSBT of that command.
\<close>

theorem overlapping_signing_faithful:
  assumes "reachable conc_init (conc_next C F N engine_new) s" and "sighash_ok C"
    and "m < length (history s)"
    and "history s ! m = Called i EndOp (Inr (Ended (HwiSignedPsbt text)))"
  shows "\<exists>j input pol request result. last_start (take m (history s)) i j (SignPsbt input pol)
    \<and> decode_psbt C input = Inr request
    \<and> text = encode_psbt C result \<and> signing_faithful C request result"
proof -
  from overlapping.reachable_inv [OF assms(1)] obtain H
    where "host_trace C F N engine_new (history s) H" by (auto simp: shadowed_def)
  from trace_signed [OF this assms(2-4)] show ?thesis .
qed

subsection \<open>Whose a lease is, while calls overlap\<close>

text \<open>
  The lessee of a cell: a thread that has it to itself, by its flag or in the body of a call, or
  an interpreter in whose session no thread is.
\<close>

definition lessee :: "('m, 'n, 'e) csys \<Rightarrow> nat + nat \<Rightarrow> lease_key option" where
  "lessee s w = (case w of Inl t \<Rightarrow> uses (pos s t)
     | Inr i \<Rightarrow> if \<exists>t. body_of (pos s t) = Some i then None else holder (memory s) i)"

lemma lessee_books:
  assumes inv: "host_inv H" and sh: "shadows s H"
  shows "lease_books key_held (lessee s) (devs s)"
proof -
  have books: "lease_books key_held (holder H) (devices H)" using inv by (simp add: host_inv_def)
  have rest: "interps H i = interps (memory s) i" if "\<nexists>t. body_of (pos s t) = Some i" for i
    using shadowsD(5) [OF sh] that by blast
  have inside: "uses (pos s t) = Some k" if "body_of (pos s t) = Some i" "holder H i = Some k" for t i k
    using that shadowsD(4) [OF sh, of t] by (cases "pos s t") (auto simp: holder_def)
  have away: "holder H i = Some k" if "lessee s (Inr i) = Some k" for i k
    using that rest [of i] by (auto simp: lessee_def holder_def split: if_splits)
  have apart: "lessee s (Inr i) \<noteq> Some k" if "uses (pos s t) = Some k" for t i k
  proof
    assume lease: "lessee s (Inr i) = Some k"
    then have "body_of (pos s u) \<noteq> Some i" for u by (auto simp: lessee_def split: if_splits)
    with lease_unused [OF inv sh, of i _ k "Suc t" t] away [OF lease] that
    show False by (auto simp: holder_def bind_eq_Some_conv)
  qed
  have up: "key_held k (devs s) \<longleftrightarrow> (\<exists>w. lessee s w = Some k)" for k
  proof (cases "\<exists>t. uses (pos s t) = Some k")
    case True
    then obtain t where t: "uses (pos s t) = Some k" by blast
    with shadowsD(6) [OF sh t] have "key_held k (devs s)" by (cases "pos s t") auto
    moreover have "lessee s (Inl t) = Some k" using t by (simp add: lessee_def)
    ultimately show ?thesis by blast
  next
    case False
    then have "key_held k (devs s) \<longleftrightarrow> (\<exists>i. holder H i = Some k)"
      using shadowsD(8) [OF sh, of k] cell_eq_held lease_books_held [OF books] by blast
    moreover have "lessee s (Inr i) = Some k" if "holder H i = Some k" for i
      using that inside False rest [of i] by (auto simp: lessee_def holder_def)
    moreover have "lessee s (Inl t) \<noteq> Some k" for t using False by (simp add: lessee_def)
    ultimately show ?thesis using away by (metis sum.exhaust)
  qed
  have one: "v = w" if vw: "lessee s v = Some k" "lessee s w = Some k" for v w k
  proof (cases "\<exists>t. uses (pos s t) = Some k")
    case True
    with apart vw obtain t u where "v = Inl t" "w = Inl u" by (metis sum.exhaust)
    with vw shadowsD(9) [OF sh, of t k u] show ?thesis by (simp add: lessee_def)
  next
    case False
    then have "lessee s (Inl t) \<noteq> Some k" for t by (simp add: lessee_def)
    with vw obtain i j where "v = Inr i" "w = Inr j" by (metis sum.exhaust)
    with vw away lease_books_exclusive [OF books] show ?thesis by blast
  qed
  from up one show ?thesis unfolding lease_books_def by blast
qed

lemma reachable_books:
  assumes "reachable conc_init (conc_next C F N engine_new) s"
  shows "lease_books key_held (lessee s) (devs s)"
proof -
  from overlapping.reachable_inv [OF assms] obtain H
    where "host_trace C F N engine_new (history s) H" and sh: "shadows s H" by (auto simp: shadowed_def)
  from host_system.reachable_inv [OF traced_reachable [OF this(1)]] sh show ?thesis
    by (rule lessee_books)
qed

text \<open>
  C39: no interleaving leaks a lease or lends a cell twice. In every state threads can reach, in
  the middle of calls, constructors, exports, drops and panics, the flag of a leased cell is up
  exactly when there is a lessee, and there is only one: a thread inside a call on the interpreter
  that leases the cell, a thread that raised the flag for itself, or an interpreter at rest.
\<close>

theorem overlapping_leases_owned:
  assumes "reachable conc_init (conc_next C F N engine_new) s"
  shows "key_held k (devs s) \<longleftrightarrow> (\<exists>!w. lessee s w = Some k)"
proof -
  note books = reachable_books [OF assms]
  show ?thesis unfolding lease_books_held [OF books] using lease_books_exclusive [OF books] by blast
qed

text \<open>
  C40: an export can be refused although no interpreter leases the handle. Whenever two threads
  are idle and a noise handle is free, they can export it so that one of them is told the handle
  is in use by an interpreter, while the other one gets the configuration.
\<close>

theorem export_refuses_export:
  assumes reach: "reachable conc_init (conc_next C F N engine_new) s"
    and idle: "pos s t = CIdle" "pos s u = CIdle" "t \<noteq> u"
    and a: "a \<in> noise_handles (memory s)" "\<not> key_held (NoiseKey a) (devs s)"
  shows "(\<forall>w. lessee s w \<noteq> Some (NoiseKey a))
    \<and> (\<exists>s'. reachable conc_init (conc_next C F N engine_new) s' \<and> pos s' = pos s
        \<and> interps (memory s') = interps (memory s)
        \<and> history s' = history s @ [Exported a (Inr (noise_config_from
            (noise_state_data N (cell (nh_state (noises (devs s) a))))))]
        \<and> busy s' = busy s
            @ [Exported a (Inl (BadState ''noise handle is in use by an interpreter''))])"
proof
  show "\<forall>w. lessee s w \<noteq> Some (NoiseKey a)"
    using lease_books_held [OF reachable_books [OF reach]] a(2) by blast
  from key_acquire_free [OF a(2)] obtain d where d: "key_acquire (NoiseKey a) (devs s) = Some d" by blast
  then have held: "is_leased (nh_state (noises d a))"
      "cell (nh_state (noises d a)) = cell (nh_state (noises (devs s) a))"
    by (auto simp: acquire_def split: if_splits)
  let ?ev = "Exported a (Inl (BadState ''noise handle is in use by an interpreter''))"
  let ?s1 = "moves t (CExport a) (sets_devs d s)"
  let ?s2 = "?s1\<lparr>busy := busy ?s1 @ [?ev]\<rparr>"
  let ?s3 = "(moves t CIdle (sets_devs (key_release (NoiseKey a) (devs ?s2)) ?s2))\<lparr>history := history ?s2
    @ [Exported a (Inr (noise_config_from (noise_state_data N (get_leased (nh_state (noises (devs ?s2) a))))))]\<rparr>"
  have go: "reachable conc_init (conc_next C F N engine_new) y"
    if "reachable conc_init (conc_next C F N engine_new) x" "conc_step C F N engine_new v x y" for v x y
    using that by (meson reachable_step conc_next_def)
  have "lent (pos ?s1 t) = Some (NoiseKey a)" by simp
  then have "refused_by (NoiseKey a) ?ev ?s1 = ?s2" unfolding refused_by_def by meson
  moreover have "conc_step C F N engine_new u ?s1 (refused_by (NoiseKey a) ?ev ?s1)"
    using idle a held by (intro c_export_refused [of _ _ _ _ "noises d a"]) (simp_all add: noise_export_Inl)
  ultimately have step2: "conc_step C F N engine_new u ?s1 ?s2" by simp
  have step1: "conc_step C F N engine_new t s ?s1"
    using idle(1) a(1) d by (intro c_export_swap) simp_all
  have step3: "conc_step C F N engine_new t ?s2 ?s3" by (intro c_export_store) simp
  from go [OF go [OF go [OF reach step1] step2] step3]
  have "reachable conc_init (conc_next C F N engine_new) ?s3" .
  moreover have "pos ?s3 = pos s" using idle(1) by auto
  ultimately show "\<exists>s'. reachable conc_init (conc_next C F N engine_new) s' \<and> pos s' = pos s
        \<and> interps (memory s') = interps (memory s)
        \<and> history s' = history s @ [Exported a (Inr (noise_config_from
            (noise_state_data N (cell (nh_state (noises (devs s) a))))))]
        \<and> busy s' = busy s @ [?ev]"
    using held(2) by (intro exI [of _ ?s3]) (simp add: get_leased_def)
qed

subsection \<open>Two threads on one interpreter\<close>

text \<open>A whole call by a thread that finds the lock free, of an interpreter without a lease.\<close>

lemma call_through:
  assumes reach: "reachable conc_init (conc_next C F N engine_new) s"
    and idle: "pos s t = CIdle" and free: "guard s i = None"
    and p: "interps (memory s) i = Some p" "interp_key p = None"
    and call: "interp_call C F op p (devs s) = (p', devs s, r)"
  shows "reachable conc_init (conc_next C F N engine_new)
    (s\<lparr>memory := (memory s)\<lparr>interps := (interps (memory s))(i \<mapsto> p')\<rparr>,
      history := history s @ [Called i op r]\<rparr>)"
    (is "reachable _ _ ?s'")
proof -
  let ?n = "length (history s)"
  have go: "reachable conc_init (conc_next C F N engine_new) b"
    if "reachable conc_init (conc_next C F N engine_new) a" "conc_step C F N engine_new t a b" for a b
    using that by (meson reachable_step conc_next_def)
  let ?s1 = "moves t (CWait i op ?n) s"
  let ?s2 = "moves t (CHeld i op ?n) (?s1\<lparr>guard := (guard ?s1)(i \<mapsto> t)\<rparr>)"
  let ?s3 = "moves t (CBody i op ?n p (devs ?s2)) ?s2"
  let ?s4 = "(moves t (CLeave i op ?n (Some r))
       (sets_interp (put_view (interp_key p) (devs s) (devs ?s3)) i (Some p') ?s3))
         \<lparr>history := history ?s3 @ [Called i op r]\<rparr>"
  let ?s5 = "moves t CIdle (?s4\<lparr>guard := (guard ?s4)(i := None)\<rparr>)"
  have st1: "conc_step C F N engine_new t s ?s1" using idle p by (intro c_enter) simp_all
  have st2: "conc_step C F N engine_new t ?s1 ?s2" using free by (intro c_lock) simp_all
  have st3: "conc_step C F N engine_new t ?s2 ?s3" using p by (intro c_body) simp_all
  have st4: "conc_step C F N engine_new t ?s3 ?s4" using call by (intro c_finish) simp_all
  have st5: "conc_step C F N engine_new t ?s4 ?s5" by (intro c_unlock) simp
  have "?s5 = ?s'"
    using idle free p(2) by (intro csys.equality) (simp_all add: put_view_def fun_upd_idem)
  with go [OF go [OF go [OF go [OF go [OF reach st1] st2] st3] st4] st5] show ?thesis by simp
qed

text \<open>
  Thread 2 calls \<open>end\<close> at once and waits; thread 1 starts the command and feeds the reply; then
  thread 2 gets the lock and the signature.
\<close>

definition sample_conc0 :: "(core_command option, noise_config_data, nat) csys" where
  "sample_conc0 = \<lparr>memory = sample_host0, guard = (\<lambda>_. None), pos = (\<lambda>_. CIdle), history = [],
     busy = []\<rparr>"

definition sample_conc :: "core_command option interp \<Rightarrow> call_event list
    \<Rightarrow> (core_command option, noise_config_data, nat) cposition \<Rightarrow> nat option
    \<Rightarrow> (core_command option, noise_config_data, nat) csys" where
  "sample_conc p h a g = \<lparr>memory = sample_host0\<lparr>interps := [8 \<mapsto> p]\<rparr>, guard = (\<lambda>_. None)(8 := g),
     pos = (\<lambda>_. CIdle)(2 := a), history = h, busy = []\<rparr>"

abbreviation sample_done :: "call_event list" where
  "sample_done \<equiv> sample_calls @ [Called 8 EndOp (Inr (Ended (HwiSignedPsbt sample_text)))]"

definition sample_overlap :: "(core_command option, noise_config_data, nat) csys" where
  "sample_overlap = sample_conc (new_mutex None) sample_done
     (CLeave 8 EndOp 0 (Some (Inr (Ended (HwiSignedPsbt sample_text))))) (Some 2)"

abbreviation sample_conc_reachable ::
    "(core_command option, noise_config_data, nat) csys \<Rightarrow> bool" where
  "sample_conc_reachable \<equiv>
     reachable conc_init (conc_next sample_crates sample_families sample_noise length)"

lemma sample_conc_go:
  "sample_conc_reachable a \<Longrightarrow>
     conc_step sample_crates sample_families sample_noise length t a b \<Longrightarrow> b = c \<Longrightarrow>
     sample_conc_reachable c"
  by (meson reachable_step conc_next_def)

lemma sample_waiting:
  "sample_conc_reachable (sample_conc (fst sample_state) [] (CWait 8 EndOp 0) None)"
proof -
  have "sample_conc_reachable sample_conc0"
    using sample_host_steps(1) by (intro reachable_init) (simp add: conc_init_def sample_conc0_def)
  then have "sample_conc_reachable (sample_conc (fst sample_state) [] CIdle None)"
    by (rule sample_conc_go [OF _ c_other [where t = 1 and i = 8 and p = "fst sample_state"]])
      (auto simp: sample_conc0_def sample_conc_def sample_host0_def sample_state_def owns_nothing_def)
  then show ?thesis
    by (rule sample_conc_go [OF _ c_enter [where t = 2 and i = 8 and op = EndOp]])
      (simp_all add: sample_conc_def)
qed

lemma sample_conc_call:
  assumes "sample_conc_reachable (sample_conc p h (CWait 8 EndOp 0) None)" and "interp_key p = None"
    and "\<And>d. interp_call sample_crates sample_families op p d = (p', d, r)"
  shows "sample_conc_reachable (sample_conc p' (h @ [Called 8 op r]) (CWait 8 EndOp 0) None)"
  using call_through [OF assms(1), of 1 8 p op p' r] assms(2, 3) by (simp add: sample_conc_def)

lemma sample_overlap_reachable: "sample_conc_reachable sample_overlap"
proof -
  let ?run = "new_mutex (Some sample_running)"
  have key: "interp_key (fst sample_state) = None" "interp_key ?run = None"
      "interp_key sample_signer = None"
    by (simp_all add: sample_state_def new_jade_def sample_signer_def interp_key_def interp_build_def
        new_mutex_def sample_running_def sample_fresh_def sample_session_def)
  have "sample_conc_reachable (sample_conc sample_signer
      (([] @ [Called 8 (Op (StartOp (SignPsbt sample_text None))) (Inr (Sent sample_transmit))])
        @ [Called 8 (Op (ExchangeOp [1])) (Inr (Advanced None))]) (CWait 8 EndOp 0) None)"
    unfolding sample_signer_def
    by (intro sample_conc_call [OF sample_conc_call [OF sample_waiting key(1) sample_run_start] key(2)]
        sample_run_exchange)
  then have "sample_conc_reachable (sample_conc sample_signer sample_calls (CWait 8 EndOp 0) None)"
    by (simp add: sample_calls_def)
  then have "sample_conc_reachable (sample_conc sample_signer sample_calls (CHeld 8 EndOp 0) (Some 2))"
    by (rule sample_conc_go [OF _ c_lock [where t = 2 and i = 8 and op = EndOp and n = 0]])
      (simp_all add: sample_conc_def)
  then have "sample_conc_reachable (sample_conc sample_signer sample_calls
      (CBody 8 EndOp 0 sample_signer (devices sample_host0)) (Some 2))"
    by (rule sample_conc_go [OF _ c_body [where t = 2 and i = 8 and op = EndOp and n = 0
            and p = sample_signer]]) (simp_all add: sample_conc_def)
  moreover have "put_view (interp_key sample_signer) d m = m"
    for d m :: "(noise_config_data, nat) device_state"
    by (simp only: key(3)) (simp add: put_view_def)
  ultimately show ?thesis
    by (elim sample_conc_go [OF _ c_finish [OF _ sample_run_end [folded sample_signer_def],
            where t = 2 and i = 8 and n = 0]])
      (simp_all add: sample_conc_def sample_overlap_def)
qed

theorem calls_linearizable_witness:
  "\<exists>H m. host_trace sample_crates sample_families sample_noise length sample_done H
    \<and> m < length sample_done
    \<and> sample_done ! m = Called 8 EndOp (Inr (Ended (HwiSignedPsbt sample_text)))"
proof -
  have "history sample_overlap = sample_done"
    "pos sample_overlap 2 = CLeave 8 EndOp 0 (Some (Inr (Ended (HwiSignedPsbt sample_text))))"
    by (simp_all add: sample_overlap_def sample_conc_def)
  then show ?thesis using calls_linearizable [OF sample_overlap_reachable] by metis
qed

theorem overlapping_signing_faithful_witness:
  "\<exists>j input pol request result. last_start (take 2 sample_done) 8 j (SignPsbt input pol)
    \<and> decode_psbt sample_crates input = Inr request
    \<and> sample_text = encode_psbt sample_crates result
    \<and> signing_faithful sample_crates request result"
  using overlapping_signing_faithful [OF sample_overlap_reachable sample_sighash_ok, of 2 8 sample_text]
  by (simp add: sample_overlap_def sample_conc_def sample_calls_def)

text \<open>A noise handle, and a thread in the middle of an export of it.\<close>

definition sample_handles :: "(core_command option, noise_config_data, nat) csys" where
  "sample_handles = sample_conc0\<lparr>memory := sample_host1\<rparr>"

lemma sample_handles_reachable: "sample_conc_reachable sample_handles"
proof -
  have "sample_conc_reachable sample_conc0"
    using sample_host_steps(1) by (intro reachable_init) (simp add: conc_init_def sample_conc0_def)
  then show ?thesis
    by (rule sample_conc_go [OF _ c_noise [where t = 1 and a = 4 and config = None]])
      (simp_all add: sample_handles_def sample_conc0_def sample_host1_def sample_host0_def
        noise_handle_new_def sample_noise_handle_def)
qed

lemma sample_handles_facts:
  "pos sample_handles t = CIdle" "4 \<in> noise_handles (memory sample_handles)"
  "\<not> key_held (NoiseKey 4) (devs sample_handles)" "busy sample_handles = []"
  by (simp_all add: sample_handles_def sample_conc0_def sample_host1_def sample_noise_handle_def)

theorem overlapping_leases_owned_witness:
  "\<exists>s. sample_conc_reachable s \<and> key_held (NoiseKey 4) (devs s) \<and> (\<exists>!w. lessee s w = Some (NoiseKey 4))"
proof -
  from key_acquire_free [OF sample_handles_facts(3)] obtain d
    where d: "key_acquire (NoiseKey 4) (devs sample_handles) = Some d" by blast
  let ?s = "moves 1 (CExport 4) (sets_devs d sample_handles)"
  have reach: "sample_conc_reachable ?s"
    by (rule sample_conc_go [OF sample_handles_reachable c_export_swap [OF sample_handles_facts(1, 2) d] refl])
  have "key_held (NoiseKey 4) (devs ?s)" using acquire_release_eq(2) [OF d] by simp
  with overlapping_leases_owned [OF reach, of "NoiseKey 4"] reach show ?thesis by blast
qed

theorem export_refuses_export_witness:
  "\<exists>s. sample_conc_reachable s
    \<and> busy s = [Exported 4 (Inl (BadState ''noise handle is in use by an interpreter''))]"
  using export_refuses_export [OF sample_handles_reachable sample_handles_facts(1) sample_handles_facts(1)
      _ sample_handles_facts(2, 3), of 1 2] sample_handles_facts(4)
  by auto

end
