(* ===== verification/Conversation.thy ===== *)
theory Conversation
  imports Interp
begin

text \<open>
  Whole conversations of a host with one interpreter, start to end, against a direct use of the
  core. \<open>dialogue\<close> drives a core machine with nothing in between: replies in, transmits out, until
  it is done. The theorem says that the bindings relay exactly such a dialogue, no transmit
  altered, dropped or added, and that nothing but the checks of the code stands between a device
  and its result.
\<close>

section \<open>The core without the bindings\<close>

text \<open>
  A core machine fed with replies: each but the last is answered by a transmit, the last one
  finishes the command.
\<close>

inductive dialogue ::
    "('m, 'c, 'n, 'e) families \<Rightarrow> 'm inner \<Rightarrow> ('n, 'e) device_state \<Rightarrow> bytes list
     \<Rightarrow> core_transmit list \<Rightarrow> 'm inner \<Rightarrow> ('n, 'e) device_state \<Rightarrow> bool"
  for F where
  last_reply: "inner_exchange F reply i d = (i', d', Inr None) \<Longrightarrow> dialogue F i d [reply] [] i' d'"
| next_reply: "\<lbrakk>inner_exchange F reply i d = (i1, d1, Inr (Some t));
     dialogue F i1 d1 replies ts i' d'\<rbrakk> \<Longrightarrow>
     dialogue F i d (reply # replies) (t # ts) i' d'"

inductive_simps dialogue_Nil [simp]: "dialogue F i d [] ts i' d'"
inductive_simps dialogue_Cons: "dialogue F i d (reply # replies) ts i' d'"

lemma dialogue_length: "dialogue F i d rs ts i' d' \<Longrightarrow> length rs = Suc (length ts)"
  by (induction rule: dialogue.induct) simp_all

text \<open>A machine is a function: replies determine the transmits and the final state.\<close>

lemma dialogue_deterministic:
  "dialogue F i d rs ts i' d' \<Longrightarrow> dialogue F i d rs ts2 i2 d2 \<Longrightarrow> ts2 = ts \<and> i2 = i' \<and> d2 = d'"
  by (induction arbitrary: ts2 rule: dialogue.induct) (auto simp: dialogue_Cons)

section \<open>The checks in between\<close>

text \<open>The replies \<open>Session::advance\<close> lets through, for a family and a registration under way.\<close>

definition admits ::
    "crates \<Rightarrow> ('m, 'c, 'n, 'e) families \<Rightarrow> device_kind \<Rightarrow> bytes option \<Rightarrow> bytes \<Rightarrow> bool" where
  "admits C F kind rid reply \<longleftrightarrow>
     (kind = KTrezor \<or> kind = KKeepKey \<longrightarrow> \<not> malformed_reply (usize_bits F) reply)
     \<and> (\<forall>pid. rid = Some pid \<longrightarrow> \<not> registration_mismatch C pid reply)"

text \<open>The session of a command that has just been sent.\<close>

definition begun ::
    "crates \<Rightarrow> command_plan \<Rightarrow> bytes option \<Rightarrow> 'm inner \<Rightarrow> 'm session \<Rightarrow> 'm session" where
  "begun C pl rid i s = s\<lparr>ses_inner := i, ses_started := True, ses_expect := plan_expect pl,
     ses_prior_inputs := fst (prior_of_command C (plan_command pl)),
     ses_prior_unsigned_tx := snd (prior_of_command C (plan_command pl)),
     ses_registration_id := rid\<rparr>"

text \<open>What the end of a finished session makes of the core's response, before the lease goes.\<close>

definition closing ::
    "crates \<Rightarrow> ('m, 'c, 'n, 'e) families \<Rightarrow> 'm session \<Rightarrow> ('n, 'e) device_state
     \<Rightarrow> ('n, 'e) device_state \<times> (hwi_error + hwi_response)" where
  "closing C F s d = (case inner_end F (ses_inner s) d of (d1, response) \<Rightarrow>
     (case session_key (ses_lease s) response of
        None \<Rightarrow> (d1, end_response C s response)
      | Some (h, key) \<Rightarrow>
          (case install_key F h key d1 of (d2, r) \<Rightarrow> (d2, map_ok (\<lambda>_. HwiTaskDone) r))))"

lemma interp_end_closing:
  "live_session p = Some s \<Longrightarrow> ses_finished s \<Longrightarrow> closing C F s d = (d1, r) \<Longrightarrow>
     interp_end C F p d = (p\<lparr>guarded := None\<rparr>, drop_lease (ses_lease s) d1, r)"
  by (cases "inner_end F (ses_inner s) d")
    (auto simp: closing_def interp_end_finished split: option.splits prod.splits)

section \<open>Relaying\<close>

abbreviation exchanges :: "bytes list \<Rightarrow> interp_op list" where
  "exchanges replies \<equiv> map (\<lambda>reply. Op (ExchangeOp reply)) replies"

abbreviation relayed :: "transmit list \<Rightarrow> (hwi_error + interp_reply) list" where
  "relayed ts \<equiv> map (\<lambda>t. Inr (Advanced (Some t))) ts"

lemma exchange_running:
  assumes "live_session p = Some s" "ses_started s" "\<not> ses_finished s"
  shows "interp_calls C F (Op (ExchangeOp reply)) (p, d) =
    (if admits C F (ses_kind s) (ses_registration_id s) reply
     then (case inner_exchange F reply (ses_inner s) d of
         (i, d', Inl e) \<Rightarrow> ((p\<lparr>guarded := None\<rparr>, drop_lease (ses_lease s) d'),
             Inl (map_error e (ses_kind s)))
       | (i, d', Inr None) \<Rightarrow>
           ((p\<lparr>guarded := Some (s\<lparr>ses_inner := i, ses_finished := True\<rparr>)\<rparr>, d'), Inr (Advanced None))
       | (i, d', Inr (Some t)) \<Rightarrow>
           ((p\<lparr>guarded := Some (s\<lparr>ses_inner := i\<rparr>)\<rparr>, d'), Inr (Advanced (Some (transmit_from t)))))
     else ((p\<lparr>guarded := None\<rparr>, drop_lease (ses_lease s) d), Inl (Device
       (if (ses_kind s = KTrezor \<or> ses_kind s = KKeepKey) \<and> malformed_reply (usize_bits F) reply
        then ''malformed device protocol reply''
        else ''invalid Ledger wallet registration response''))))"
proof -
  have run: "require_running s = Inr ()" using assms by (simp add: require_running_def)
  have "session_call C F (ExchangeOp reply) s d = relabel Advanced (session_advance C F reply s d)"
    by (simp add: exchange_session_def run)
  then show ?thesis
    using assms(2)
    by (auto simp: interp_calls_def interp_call_Op session_advance_def relabel_def admits_def
        with_session_live [OF assms(1)] simp del: session_call.simps
        split: prod.splits sum.splits option.splits)
qed

lemma exchanges_dialogue:
  fixes F :: "('m, 'c, 'n, 'e) families"
  assumes "live_session p = Some s" "ses_started s" "\<not> ses_finished s"
  shows "run_calls (interp_calls C F) (exchanges replies) (p, d)
      = (st', relayed ts @ [Inr (Advanced None)]) \<longleftrightarrow>
    list_all (admits C F (ses_kind s) (ses_registration_id s)) replies
    \<and> (\<exists>cts i' d'. dialogue F (ses_inner s) d replies cts i' d' \<and> ts = map transmit_from cts
        \<and> st' = (p\<lparr>guarded := Some (s\<lparr>ses_inner := i', ses_finished := True\<rparr>)\<rparr>, d'))"
  using assms
proof (induction replies arbitrary: p s d ts)
  case Nil
  then show ?case by simp
next
  case (Cons reply replies)
  obtain i1 d1 r where x: "inner_exchange F reply (ses_inner s) d = (i1, d1, r)"
    by (cases "inner_exchange F reply (ses_inner s) d") auto
  note call = exchange_running [OF Cons.prems, where reply = reply and C = C and F = F and d = d]
  show ?case
  proof (cases "admits C F (ses_kind s) (ses_registration_id s) reply")
    case False
    with call show ?thesis by (auto simp: Let_def Cons_eq_append_conv map_eq_Cons_conv split: prod.splits)
  next
    case ok: True
    consider e where "r = Inl e" | "r = Inr None" | t where "r = Inr (Some t)"
      by (metis option.exhaust sum.exhaust)
    then show ?thesis
    proof cases
      case 1
      with call ok x show ?thesis
        by (auto simp: Let_def Cons_eq_append_conv map_eq_Cons_conv dialogue_Cons split: prod.splits)
    next
      case 2
      let ?p = "p\<lparr>guarded := Some (s\<lparr>ses_inner := i1, ses_finished := True\<rparr>)\<rparr>"
      have fin: "interp_calls C F (Op (ExchangeOp r')) (?p, d1)
          = ((?p, d1), Inl (bad_state ''command is finished''))" for r'
        using Cons.prems
        by (simp add: interp_calls_def interp_call_Op with_session_def lock_def live_session_eq
            exchange_session_def require_running_def relabel_def)
      show ?thesis
      proof (cases replies)
        case Nil
        with 2 call ok x show ?thesis by (auto simp: dialogue_Cons)
      next
        case (Cons r' rest)
        with 2 call ok x fin show ?thesis
          by (auto simp: Let_def Cons_eq_append_conv map_eq_Cons_conv dialogue_Cons split: prod.splits)
      qed
    next
      case 3
      let ?s = "s\<lparr>ses_inner := i1\<rparr>" and ?p = "p\<lparr>guarded := Some (s\<lparr>ses_inner := i1\<rparr>)\<rparr>"
      have "live_session ?p = Some ?s" "ses_started ?s" "\<not> ses_finished ?s"
        using Cons.prems by (simp_all add: live_session_eq)
      note IH = Cons.IH [OF this, where d = d1]
      show ?thesis
      proof (cases ts)
        case Nil
        with 3 call ok x show ?thesis by (auto simp: Let_def dialogue_Cons split: prod.splits)
      next
        case (Cons t' ts')
        with 3 call ok x IH [of ts'] show ?thesis
          by (auto simp: Let_def dialogue_Cons split: prod.splits) (metis list.simps(9))
      qed
    qed
  qed
qed

lemma start_relays:
  assumes "live_session p = Some s" "\<not> ses_started s"
  shows "interp_calls C F (Op (StartOp cmd)) (p, d) = (st', Inr (Sent t)) \<longleftrightarrow>
    (\<exists>pl c rid i d' ct. plan C cmd (ses_kind s) = Inr pl
       \<and> inner_lower F (ses_inner s) (plan_command pl) = Inr c
       \<and> registration_id_of C F s c = Inr rid
       \<and> inner_start F (Ready c) (ses_inner s) d = (i, d', Inr ct) \<and> t = transmit_from ct
       \<and> st' = (p\<lparr>guarded := Some (begun C pl rid i s)\<rparr>, d'))"
proof -
  obtain s1 d1 out where c: "start_session C F cmd s d = (s1, d1, out)"
    by (cases "start_session C F cmd s d") auto
  have "interp_calls C F (Op (StartOp cmd)) (p, d) = (st', Inr (Sent t)) \<longleftrightarrow>
      out = Inr t \<and> st' = (p\<lparr>guarded := Some s1\<rparr>, d1)"
    using with_session_live [where f = "start_session C F cmd", OF assms(1) c]
    by (cases out) (auto simp: interp_calls_def interp_start_def relabel_def split: if_splits)
  moreover have "out = Inr t \<longleftrightarrow> (\<exists>pl c rid i ct. plan C cmd (ses_kind s) = Inr pl
       \<and> inner_lower F (ses_inner s) (plan_command pl) = Inr c
       \<and> registration_id_of C F s c = Inr rid
       \<and> inner_start F (Ready c) (ses_inner s) d = (i, d1, Inr ct) \<and> t = transmit_from ct
       \<and> s1 = begun C pl rid i s)"
    using c assms(2)
    by (auto simp: start_session_def session_start_def begun_def Let_def result_simps
        split: sum.splits prod.splits if_splits)
  ultimately show ?thesis
    using c assms(2)
    by (auto simp: start_session_def session_start_def begun_def Let_def result_simps
        split: sum.splits prod.splits if_splits)
qed

section \<open>A conversation\<close>

text \<open>
  A command taken by the core from its first transmit to its response, and what the host gets
  of it. The checks of the code are all there is besides the core: the plan, the lowering, the
  admission of each reply and the gate of the end.
\<close>

definition conversation ::
    "crates \<Rightarrow> ('m, 'c, 'n, 'e) families \<Rightarrow> 'm session \<Rightarrow> ('n, 'e) device_state
     \<Rightarrow> hwi_command \<Rightarrow> bytes list \<Rightarrow> transmit \<Rightarrow> transmit list \<Rightarrow> hwi_response
     \<Rightarrow> ('n, 'e) device_state \<Rightarrow> bool" where
  "conversation C F s d cmd replies t ts resp d' \<longleftrightarrow>
     (\<exists>pl c rid i1 d1 ct cts i2 d2 d3.
        plan C cmd (ses_kind s) = Inr pl
        \<and> inner_lower F (ses_inner s) (plan_command pl) = Inr c
        \<and> registration_id_of C F s c = Inr rid
        \<and> inner_start F (Ready c) (ses_inner s) d = (i1, d1, Inr ct) \<and> t = transmit_from ct
        \<and> list_all (admits C F (ses_kind s) rid) replies
        \<and> dialogue F i1 d1 replies cts i2 d2 \<and> ts = map transmit_from cts
        \<and> closing C F (begun C pl rid i2 s\<lparr>ses_finished := True\<rparr>) d2 = (d3, Inr resp)
        \<and> d' = drop_lease (ses_lease s) d3)"

lemma begun_sel [simp]:
  "ses_started (begun C pl rid i s)" "ses_finished (begun C pl rid i s) = ses_finished s"
  "ses_kind (begun C pl rid i s) = ses_kind s" "ses_lease (begun C pl rid i s) = ses_lease s"
  "ses_inner (begun C pl rid i s) = i" "ses_registration_id (begun C pl rid i s) = rid"
  "begun C pl rid i s\<lparr>ses_inner := j, ses_finished := f\<rparr> = begun C pl rid j s\<lparr>ses_finished := f\<rparr>"
  by (simp_all add: begun_def)

lemma exchanges_end:
  assumes "live_session p = Some s" "ses_started s" "\<not> ses_finished s"
  shows "run_calls (interp_calls C F) (exchanges replies @ [EndOp]) (p, d)
      = (st', relayed ts @ [Inr (Advanced None), Inr (Ended resp)]) \<longleftrightarrow>
    list_all (admits C F (ses_kind s) (ses_registration_id s)) replies
    \<and> (\<exists>cts i' d' d3. dialogue F (ses_inner s) d replies cts i' d' \<and> ts = map transmit_from cts
        \<and> closing C F (s\<lparr>ses_inner := i', ses_finished := True\<rparr>) d' = (d3, Inr resp)
        \<and> st' = (p\<lparr>guarded := None\<rparr>, drop_lease (ses_lease s) d3))"
    (is "?run \<longleftrightarrow> ?spec")
proof -
  let ?s = "\<lambda>i'. s\<lparr>ses_inner := i', ses_finished := True\<rparr>"
  have last: "interp_calls C F EndOp (p\<lparr>guarded := Some (?s i')\<rparr>, d') = (st', Inr (Ended resp))
      \<longleftrightarrow> (\<exists>d3. closing C F (?s i') d' = (d3, Inr resp)
            \<and> st' = (p\<lparr>guarded := None\<rparr>, drop_lease (ses_lease s) d3))" for i' d'
  proof -
    obtain d3 r where c: "closing C F (?s i') d' = (d3, r)" by fastforce
    have "live_session (p\<lparr>guarded := Some (?s i')\<rparr>) = Some (?s i')"
      using assms(1) by (simp add: live_session_eq)
    from interp_end_closing [OF this _ c] c show ?thesis
      by (auto simp: interp_calls_def relabel_def result_simps)
  qed
  have "exchanges replies @ [EndOp] = (exchanges replies) @ [EndOp]
      \<and> relayed ts @ [Inr (Advanced None), Inr (Ended resp)]
        = (relayed ts @ [Inr (Advanced None)]) @ [Inr (Ended resp)]"
    by simp
  then have "?run \<longleftrightarrow> (\<exists>st1. run_calls (interp_calls C F) (exchanges replies) (p, d)
        = (st1, relayed ts @ [Inr (Advanced None)])
      \<and> interp_calls C F EndOp st1 = (st', Inr (Ended resp)))"
    by (simp only: run_calls_snoc)
  also have "\<dots> \<longleftrightarrow> list_all (admits C F (ses_kind s) (ses_registration_id s)) replies
      \<and> (\<exists>cts i' d'. dialogue F (ses_inner s) d replies cts i' d' \<and> ts = map transmit_from cts
        \<and> interp_calls C F EndOp (p\<lparr>guarded := Some (?s i')\<rparr>, d') = (st', Inr (Ended resp)))"
    unfolding exchanges_dialogue [OF assms] by blast
  also have "\<dots> \<longleftrightarrow> ?spec"
    unfolding last by blast
  finally show ?thesis .
qed

text \<open>
  C7: the bindings are a faithful relay. On a fresh interpreter, calling start, one exchange
  per reply and end returns a transmit for each step and then a response exactly when the core,
  driven directly with the same replies, sends those very transmits and gives that response, and
  each reply and the response pass the code's checks; the lease is then released.
\<close>

theorem conversation_iff:
  assumes "live_session p = Some s" "\<not> ses_started s" "wf_session s"
  shows "run_calls (interp_calls C F) (Op (StartOp cmd) # exchanges replies @ [EndOp]) (p, d)
      = (st', Inr (Sent t) # relayed ts @ [Inr (Advanced None), Inr (Ended resp)]) \<longleftrightarrow>
    (\<exists>d'. conversation C F s d cmd replies t ts resp d' \<and> st' = (p\<lparr>guarded := None\<rparr>, d'))"
    (is "?run \<longleftrightarrow> ?spec")
proof -
  have fresh: "\<not> ses_finished s" using assms(2, 3) by (auto simp: wf_session_def)
  let ?b = "\<lambda>pl rid i. begun C pl rid i s"
  have live: "live_session (p\<lparr>guarded := Some (?b pl rid i)\<rparr>) = Some (?b pl rid i)" for pl rid i
    using assms(1) by (simp add: live_session_eq)
  have tail: "run_calls (interp_calls C F) (exchanges replies @ [EndOp])
        (p\<lparr>guarded := Some (?b pl rid i)\<rparr>, d1)
      = (st', relayed ts @ [Inr (Advanced None), Inr (Ended resp)]) \<longleftrightarrow>
    list_all (admits C F (ses_kind s) rid) replies
    \<and> (\<exists>cts i' d' d3. dialogue F i d1 replies cts i' d' \<and> ts = map transmit_from cts
        \<and> closing C F (?b pl rid i'\<lparr>ses_finished := True\<rparr>) d' = (d3, Inr resp)
        \<and> st' = (p\<lparr>guarded := None\<rparr>, drop_lease (ses_lease s) d3))" for pl rid i d1
    using exchanges_end [OF live, where C = C and F = F] fresh by simp
  have "?run \<longleftrightarrow> (\<exists>st1. interp_calls C F (Op (StartOp cmd)) (p, d) = (st1, Inr (Sent t))
      \<and> run_calls (interp_calls C F) (exchanges replies @ [EndOp]) st1
        = (st', relayed ts @ [Inr (Advanced None), Inr (Ended resp)]))"
    by (simp only: run_calls_Cons)
  also have "\<dots> \<longleftrightarrow> (\<exists>pl c rid i d1 ct. plan C cmd (ses_kind s) = Inr pl
       \<and> inner_lower F (ses_inner s) (plan_command pl) = Inr c
       \<and> registration_id_of C F s c = Inr rid
       \<and> inner_start F (Ready c) (ses_inner s) d = (i, d1, Inr ct) \<and> t = transmit_from ct
       \<and> run_calls (interp_calls C F) (exchanges replies @ [EndOp])
           (p\<lparr>guarded := Some (?b pl rid i)\<rparr>, d1)
         = (st', relayed ts @ [Inr (Advanced None), Inr (Ended resp)]))"
    unfolding start_relays [OF assms(1, 2)] by blast
  also have "\<dots> \<longleftrightarrow> ?spec"
    unfolding tail conversation_def by blast
  finally show ?thesis .
qed

lemma sample_relay:
  "run_calls (interp_calls sample_crates sample_families)
      (Op (StartOp (SignPsbt sample_text None)) # exchanges [[1]] @ [EndOp])
      (fst sample_state, snd sample_state)
    = ((new_mutex None, sample_devices), Inr (Sent sample_transmit)
        # relayed [] @ [Inr (Advanced None), Inr (Ended (HwiSignedPsbt sample_text))])"
  using sample_run by (simp only: append_Cons append_Nil list.map prod.collapse)

theorem conversation_iff_witness:
  "conversation sample_crates sample_families sample_fresh sample_devices
     (SignPsbt sample_text None) [[1]] sample_transmit [] (HwiSignedPsbt sample_text) sample_devices"
  using conversation_iff [OF sample_fresh_facts(1-3), THEN iffD1, OF sample_relay]
  by (simp add: sample_state_def)

end
