(* ===== verification/Redaction.thy ===== *)
theory Redaction
  imports Host Conversation
begin

text \<open>
  Noninterference of the error paths. The core's errors carry texts and bytes that a device or a
  caller controls; \<open>map_error\<close> erases them one error at a time. Here the erasure is lifted to the
  whole object: two cores that differ only in the erased parts of their errors cannot be told
  apart through any calls on an interpreter, nor by any run of a host.
\<close>

section \<open>A core with its errors reduced to their public parts\<close>

definition redact_result :: "core_error + 'r \<Rightarrow> core_error + 'r" where
  "redact_result r = map_err public_part r"

definition redact_step :: "'x \<times> 'd \<times> (core_error + 'r) \<Rightarrow> 'x \<times> 'd \<times> (core_error + 'r)" where
  "redact_step y = (case y of (x, d, r) \<Rightarrow> (x, d, redact_result r))"

definition redact_end :: "'d \<times> (core_error + 'r) \<Rightarrow> 'd \<times> (core_error + 'r)" where
  "redact_end y = (case y of (d, r) \<Rightarrow> (d, redact_result r))"

definition redact_machine :: "('m, 'c, 'i, 'o) machine \<Rightarrow> ('m, 'c, 'i, 'o) machine" where
  "redact_machine M = \<lparr>
     mc_lower = (\<lambda>c. redact_result (mc_lower M c)),
     mc_start = (\<lambda>m i c. redact_step (mc_start M m i c)),
     mc_exchange = (\<lambda>m i reply. redact_step (mc_exchange M m i reply)),
     mc_end = (\<lambda>m i. redact_end (mc_end M m i))\<rparr>"

definition redact :: "('m, 'c, 'n, 'e) families \<Rightarrow> ('m, 'c, 'n, 'e) families" where
  "redact F = F\<lparr>
     fam_bitbox := redact_machine (fam_bitbox F), fam_coldcard := redact_machine (fam_coldcard F),
     fam_jade := redact_machine (fam_jade F), fam_ledger := redact_machine (fam_ledger F),
     fam_trezor := redact_machine (fam_trezor F), fam_keepkey := redact_machine (fam_keepkey F),
     fam_specter := redact_machine (fam_specter F)\<rparr>"

lemma redact_machine_sel [simp]:
  "mc_lower (redact_machine M) = (\<lambda>c. redact_result (mc_lower M c))"
  "mc_start (redact_machine M) = (\<lambda>m i c. redact_step (mc_start M m i c))"
  "mc_exchange (redact_machine M) = (\<lambda>m i reply. redact_step (mc_exchange M m i reply))"
  "mc_end (redact_machine M) = (\<lambda>m i. redact_end (mc_end M m i))"
  by (simp_all add: redact_machine_def)

lemma redact_sel [simp]:
  "fam_bitbox (redact F) = redact_machine (fam_bitbox F)"
  "fam_coldcard (redact F) = redact_machine (fam_coldcard F)"
  "fam_jade (redact F) = redact_machine (fam_jade F)"
  "fam_ledger (redact F) = redact_machine (fam_ledger F)"
  "fam_trezor (redact F) = redact_machine (fam_trezor F)"
  "fam_keepkey (redact F) = redact_machine (fam_keepkey F)"
  "fam_specter (redact F) = redact_machine (fam_specter F)"
  "bitbox_new (redact F) = bitbox_new F" "coldcard_new (redact F) = coldcard_new F"
  "jade_new (redact F) = jade_new F" "ledger_new (redact F) = ledger_new F"
  "trezor_new (redact F) = trezor_new F" "keepkey_new (redact F) = keepkey_new F"
  "specter_new (redact F) = specter_new F"
  "ledger_register_policy (redact F) = ledger_register_policy F"
  "engine_ready (redact F) = engine_ready F" "usize_bits (redact F) = usize_bits F"
  by (simp_all add: redact_def)

section \<open>Redaction commutes with the dispatch\<close>

lemma redact_result_simps [simp]:
  "redact_result (Inr r) = Inr r" "redact_result (Inl e) = Inl (public_part e)"
  "map_err (\<lambda>e. map_error e kind) (redact_result x) = map_err (\<lambda>e. map_error e kind) x"
  by (auto simp: redact_result_def map_error_public [symmetric] map_err_def split: sum.splits)

lemma redact_step_on [simp]:
  "on_noise h (\<lambda>n. redact_step (f n)) d = redact_step (on_noise h f d)"
  "on_coldcard h (\<lambda>e. redact_step (g e)) d = redact_step (on_coldcard h g d)"
  "on_nothing (\<lambda>u. redact_step (k u)) d = redact_step (on_nothing k d)"
  "wrap_inner w (redact_step y) = redact_step (wrap_inner w y)"
  by (simp_all add: on_noise_def on_coldcard_def on_nothing_def wrap_inner_def redact_step_def
      Let_def split: prod.splits)

lemma redact_end_on [simp]:
  "snd (on_noise h (\<lambda>n. ((), redact_end (f n))) d) = redact_end (snd (on_noise h (\<lambda>n. ((), f n)) d))"
  "snd (on_coldcard h (\<lambda>e. ((), redact_end (g e))) d)
    = redact_end (snd (on_coldcard h (\<lambda>e. ((), g e)) d))"
  "snd (on_nothing (\<lambda>u. ((), redact_end (k u))) d) = redact_end (snd (on_nothing (\<lambda>u. ((), k u)) d))"
  by (simp_all add: on_noise_def on_coldcard_def on_nothing_def redact_end_def Let_def
      split: prod.splits)

lemma inner_redact:
  "inner_exchange (redact F) reply i d = redact_step (inner_exchange F reply i d)"
  "inner_start (redact F) c i d = redact_step (inner_start F c i d)"
  "inner_lower (redact F) i cmd = redact_result (inner_lower F i cmd)"
  "inner_end (redact F) i d = redact_end (inner_end F i d)"
  by (cases i; simp)+

lemma registration_id_redact [simp]:
  "registration_id_of C (redact F) s c = registration_id_of C F s c"
  by (simp add: registration_id_of_def split: inner.splits)

lemma session_redact:
  "session_start C (redact F) p s d = session_start C F p s d"
  "session_advance C (redact F) reply s d = session_advance C F reply s d"
proof -
  show "session_start C (redact F) p s d = session_start C F p s d"
    by (auto simp: session_start_def inner_redact redact_step_def
        map_error_public [symmetric] split: sum.splits prod.splits)
  show "session_advance C (redact F) reply s d = session_advance C F reply s d"
    by (auto simp: session_advance_def inner_redact redact_step_def map_error_public [symmetric]
        split: sum.splits prod.splits option.splits)
qed

lemma session_key_redact [simp]: "session_key l (redact_result r) = session_key l r"
  by (cases "(l, r)" rule: session_key.cases; cases r) auto

lemma end_response_redact [simp]: "end_response C s (redact_result r) = end_response C s r"
  by (simp add: end_response_def)

lemma install_key_redact [simp]: "install_key (redact F) = install_key F"
  by (simp add: install_key_def fun_eq_iff)

lemma closing_redact: "closing C (redact F) s d = closing C F s d"
  by (simp add: closing_def inner_redact redact_end_def split: prod.splits option.splits)

lemma interp_end_redact: "interp_end C (redact F) p d = interp_end C F p d"
proof (cases "live_session p")
  case None
  then show ?thesis
    using dead_interp_call [of p C F EndOp d] dead_interp_call [of p C "redact F" EndOp d]
    by (auto simp: relabel_def result_simps split: prod.splits)
next
  case (Some s)
  obtain d1 r where r: "closing C F s d = (d1, r)" by fastforce
  show ?thesis
  proof (cases "ses_finished s")
    case True
    from interp_end_closing [OF Some this r] interp_end_closing [OF Some this, of C "redact F" d d1 r] r
    show ?thesis by (simp add: closing_redact)
  next
    case False
    from interp_end_unfinished [OF Some this, of C F d]
      interp_end_unfinished [OF Some this, of C "redact F" d]
    show ?thesis by simp
  qed
qed

lemma interp_call_redact: "interp_call C (redact F) op p d = interp_call C F op p d"
proof -
  have "start_session C (redact F) cmd = start_session C F cmd" for cmd
    by (intro ext) (simp add: start_session_def session_redact split: sum.splits)
  moreover have "exchange_session C (redact F) reply = exchange_session C F reply" for reply
    by (intro ext) (simp add: exchange_session_def session_redact split: sum.splits)
  ultimately show ?thesis
    by (cases "(C, redact F, op, p, d)" rule: interp_call.cases)
      (simp_all add: interp_start_def interp_exchange_def interp_end_redact)
qed

section \<open>Nothing a host can do tells two cores apart\<close>

lemma constructors_redact [simp]:
  "new_bitbox (redact F) = new_bitbox F" "new_coldcard (redact F) = new_coldcard F"
  "owns_nothing (redact F) = owns_nothing F"
  by (simp_all add: fun_eq_iff new_bitbox_def new_coldcard_def owns_nothing_def new_ledger_def
      new_jade_def new_specter_def new_keepkey_def new_trezor_def
      split: option.splits)

lemma host_step_cong:
  assumes "host_step C F N en s t"
    and "interp_call C G = interp_call C F" "new_bitbox G = new_bitbox F"
      "new_coldcard G = new_coldcard F" "owns_nothing G = owns_nothing F"
  shows "host_step C G N en s t"
  using assms(1) unfolding assms(2-) [symmetric]
proof (cases rule: host_step.cases)
  case (make_bitbox a i network d p)
  then show ?thesis by (simp only:) (rule host_step.make_bitbox, simp_all only: assms(3))
next
  case (make_coldcard_interp a i d p)
  then show ?thesis by (simp only:) (rule host_step.make_coldcard_interp, simp_all only: assms(4))
next
  case (make_other i p)
  then show ?thesis by (simp only:) (rule host_step.make_other, simp_all only: assms(5))
next
  case (call i p op p' d r)
  then show ?thesis by (simp only:) (rule host_step.call, simp_all only: assms(2))
qed (blast intro: host_step.intros)+

lemma host_step_redact: "host_step C (redact F) N en s t \<longleftrightarrow> host_step C F N en s t"
proof -
  have "interp_call C (redact F) = interp_call C F"
    by (intro ext) (rule interp_call_redact)
  then show ?thesis
    by (auto elim: host_step_cong simp del: interp_call.simps)
qed

lemma specter_push_redact:
  "specter_push (\<lambda>d bs. redact_end (push d bs)) bs m = specter_push push bs m"
  by (auto simp: specter_push_def redact_end_def map_error_public [symmetric]
      split: prod.splits sum.splits option.splits)

text \<open>
  C10: errors of the core leak nothing but their public parts, end to end. Of two cores that
  differ only in device messages, result payloads, serialization details or echoed input, every
  sequence of calls on an interpreter gives the same results and leaves the same state, a host
  can take exactly the same steps, and a Specter decoder answers every chunk alike.
\<close>

theorem core_errors_indistinguishable:
  assumes "redact F = redact F'"
    and "\<And>d bs. redact_end (push d bs) = redact_end (push' d bs)"
  shows "run_calls (interp_calls C F) ops st = run_calls (interp_calls C F') ops st
    \<and> (host_step C F N engine_new s t \<longleftrightarrow> host_step C F' N engine_new s t)
    \<and> specter_push push chunk decoder = specter_push push' chunk decoder"
proof (intro conjI)
  have "interp_calls C F = interp_calls C F'"
    using interp_call_redact [of C F] interp_call_redact [of C F'] assms(1)
    by (simp add: interp_calls_def fun_eq_iff)
  then show "run_calls (interp_calls C F) ops st = run_calls (interp_calls C F') ops st" by simp
  show "host_step C F N engine_new s t \<longleftrightarrow> host_step C F' N engine_new s t"
    using host_step_redact [of C F] host_step_redact [of C F'] assms(1) by simp
  show "specter_push push chunk decoder = specter_push push' chunk decoder"
    using specter_push_redact [of push chunk decoder] specter_push_redact [of push' chunk decoder]
      assms(2) by simp
qed

text \<open>A core that echoes the reply it choked on, and one that does not.\<close>

definition chatty_families ::
    "string \<Rightarrow> (core_command option, core_command, noise_config_data, nat) families" where
  "chatty_families secret = sample_families\<lparr>fam_jade := (sample_machine (\<lambda>u. u))
     \<lparr>mc_exchange := (\<lambda>m i reply. (m, i, Inl (CSerialization secret)))\<rparr>\<rparr>"

theorem core_errors_indistinguishable_witness:
  "run_calls (interp_calls sample_crates (chatty_families ''seed words''))
      [Op (StartOp GetVersion), Op (ExchangeOp [1])] sample_state
    = run_calls (interp_calls sample_crates (chatty_families []))
      [Op (StartOp GetVersion), Op (ExchangeOp [1])] sample_state
   \<and> (host_step sample_crates (chatty_families ''seed words'') sample_noise length sample_host3
        sample_host3
      \<longleftrightarrow> host_step sample_crates (chatty_families []) sample_noise length sample_host3
        sample_host3)
   \<and> specter_push (\<lambda>d bs. (d, Inl (CDevice ''seed words''))) [1] (specter_decoder_new ())
    = specter_push (\<lambda>d bs. (d, Inl (CDevice []))) [1] (specter_decoder_new ())"
  by (rule core_errors_indistinguishable)
    (simp_all add: chatty_families_def redact_def redact_machine_def redact_step_def redact_end_def)

end
