(* ===== verification/Plan_Types.thy ===== *)
theory Plan_Types
  imports Commands
begin

text \<open>
  A type discipline for the commands that reach a device. \<open>typed_command\<close> says, per family,
  which core commands make sense: contexts of that very family, unhardened indices, names and
  keys the family supports, thresholds within their keys. Every plan is well typed, whatever the
  host asked for, and its expected response is the one its core command has.
\<close>

section \<open>Types\<close>

text \<open>A policy of the core made from a public descriptor.\<close>

definition public_policy :: "crates \<Rightarrow> core_wallet_policy \<Rightarrow> bool" where
  "public_policy C policy \<longleftrightarrow> (\<exists>d. \<not> desc_is_bare C d \<and> desc_iter_pk C d \<noteq> []
     \<and> list_all account_key (desc_iter_pk C d) \<and> policy_from_descriptor C d = Some policy)"

fun pin_context :: "device_kind \<Rightarrow> device_context \<Rightarrow> bool" where
  "pin_context kind (TrezorManagementPin pin) = (kind = KTrezor)"
| "pin_context kind (KeepKeyManagementPin pin) = (kind = KKeepKey)"
| "pin_context kind _ = False"

fun wallet_context :: "crates \<Rightarrow> device_kind \<Rightarrow> device_context \<Rightarrow> bool" where
  "wallet_context C kind (LedgerContext wallet hmac) =
     (kind = KLedger \<and> public_policy C (lw_policy wallet) \<and> lw_version wallet = V2
      \<and> policy_name_valid KLedger False (lw_name wallet)
      \<and> (case hmac of None \<Rightarrow> True | Some h \<Rightarrow> length h = 32))"
| "wallet_context C kind (BitBoxContext policy) = (kind = KBitBox \<and> public_policy C policy)"
| "wallet_context C kind (SpecterContext policy) = (kind = KSpecter \<and> public_policy C policy)"
| "wallet_context C kind _ = False"

text \<open>The families whose wallet commands carry a context, and the rest, which carry none.\<close>

definition context_typed :: "crates \<Rightarrow> device_kind \<Rightarrow> device_context option \<Rightarrow> bool" where
  "context_typed C kind ctx = (case ctx of
       None \<Rightarrow> kind \<notin> {KLedger, KBitBox, KSpecter}
     | Some c \<Rightarrow> wallet_context C kind c)"

fun typed_display :: "crates \<Rightarrow> device_kind \<Rightarrow> display_address \<Rightarrow> device_context option \<Rightarrow> bool" where
  "typed_display C kind (ByPath path display format) ctx =
     (ctx = None \<and> (kind = KKeepKey \<longrightarrow> format \<noteq> Some P2tr
        \<and> (format = None \<longrightarrow> \<not> taproot_purpose C path)))"
| "typed_display C kind (ByDescriptor index change display name) ctx =
     (unat index < 2 ^ 31 \<and> kind \<noteq> KTrezor \<and> kind \<noteq> KKeepKey \<and> context_typed C kind ctx
      \<and> policy_name_valid kind False name)"
| "typed_display C kind (ByMultisig m) ctx =
     (ctx = None \<and> 1 \<le> unat (md_threshold m) \<and> unat (md_threshold m) \<le> length (md_keys m)
      \<and> length (md_keys m) \<le> 15 \<and> list_all (multisig_key kind) (md_keys m)
      \<and> (kind = KKeepKey \<longrightarrow> md_sorted m))"

fun typed_command :: "crates \<Rightarrow> device_kind \<Rightarrow> core_command \<Rightarrow> bool" where
  "typed_command C kind (CmdUnlock network) =
     (\<exists>n. network = Some (network_to_core n))"
| "typed_command C kind (CmdSendPin ctx) = (\<exists>c. ctx = Some c \<and> pin_context kind c)"
| "typed_command C kind (CmdDisplayAddress a ctx) = typed_display C kind a ctx"
| "typed_command C kind (CmdRegisterWallet name policy) =
     (policy_name_valid kind True name \<and> public_policy C policy)"
| "typed_command C kind (CmdSignTx psbt ctx) =
     ((\<forall>c. ctx = Some c \<longrightarrow> wallet_context C kind c)
      \<and> (kind = KLedger \<longrightarrow>
           (\<exists>w hmac. ctx = Some (LedgerContext w hmac) \<and> ledger_signing_shape C w hmac))
      \<and> (kind = KBitBox \<and> ctx = None \<longrightarrow> \<not> list_ex (script_input C) (ps_inputs psbt)))"
| "typed_command C kind _ = True"

fun response_type :: "core_command \<Rightarrow> expect" where
  "response_type (CmdUnlock network) = ExpectAny"
| "response_type CmdGetVersion = ExpectInfo"
| "response_type CmdPromptPin = ExpectDeviceAction"
| "response_type (CmdSendPin ctx) = ExpectDeviceAction"
| "response_type CmdGetMasterFingerprint = ExpectFingerprint"
| "response_type (CmdGetXpub path display) = ExpectXpub"
| "response_type (CmdDisplayAddress a ctx) = ExpectAddress"
| "response_type (CmdRegisterWallet name policy) = ExpectWalletRegistration"
| "response_type (CmdSignMessage message path) = ExpectSignature"
| "response_type (CmdSignTx psbt ctx) = ExpectSignedPsbt"

definition well_typed_plan :: "crates \<Rightarrow> device_kind \<Rightarrow> command_plan \<Rightarrow> bool" where
  "well_typed_plan C kind p \<longleftrightarrow>
     typed_command C kind (plan_command p) \<and> plan_expect p = response_type (plan_command p)"

section \<open>The validators give typed values\<close>

lemma parse_public_policy_typed: "parse_public_policy C text = Inr policy \<Longrightarrow> public_policy C policy"
  by (auto simp: parse_public_policy_def public_policy_def result_simps account_key_iff
      list_all_iff list_ex_iff)

lemma validate_policy_name_typed:
  "validate_policy_name name kind registration = Inr u \<Longrightarrow> policy_name_valid kind registration name"
  by (simp add: validate_policy_name_def result_simps)

lemma policy_context_typed:
  "policy_context C w kind = Inr ctx \<Longrightarrow>
     context_typed C kind ctx \<and> policy_name_valid kind False (wp_name w)"
  by (cases kind; cases "wp_ledger_hmac w")
    (auto simp: policy_context_def context_hmac_def context_typed_def result_simps
      simp del: policy_name_valid.simps dest: parse_public_policy_typed validate_policy_name_typed
      split: if_splits)

lemma context_typed_some: "context_typed C kind (Some c) \<Longrightarrow> wallet_context C kind c"
  by (simp add: context_typed_def)

lemma parse_concrete_keys_typed:
  "try_map (parse_concrete_key C kind) keys = Inr ks \<Longrightarrow>
     length ks = length keys \<and> list_all (multisig_key kind) ks"
  by (auto simp: try_map_eq_Inr parse_concrete_key_iff list_all2_conv_all_nth list_all_length)

section \<open>Plans are well typed\<close>

lemma sign_plan_typed:
  assumes "plan_sign_psbt C kind psbt_base64 policy = Inr p"
  shows "well_typed_plan C kind p"
proof -
  from assms obtain psbt x where x: "transpose_result (map_option (\<lambda>p. policy_context C p kind) policy) = Inr x"
    and ledger: "check_ledger_context C kind (Option.bind x (\<lambda>c. c)) = Inr ()"
    and bitbox: "\<not> (kind = KBitBox \<and> Option.bind x (\<lambda>c. c) = None
      \<and> list_ex (script_input C) (ps_inputs psbt))"
    and p: "p = mk_plan (CmdSignTx psbt (Option.bind x (\<lambda>c. c))) ExpectSignedPsbt"
    by (auto simp: plan_sign_psbt_def result_simps Let_def)
  have "wallet_context C kind c" if "Option.bind x (\<lambda>c. c) = Some c" for c
    using x that
    by (cases policy; cases x)
      (auto simp: result_simps dest!: policy_context_typed intro: context_typed_some)
  with ledger bitbox show ?thesis
    by (auto simp: p well_typed_plan_def check_ledger_context_iff)
qed

lemma display_plans_typed:
  "plan_display_address C kind path display format = Inr p \<Longrightarrow> well_typed_plan C kind p"
  "plan_descriptor_address C kind index change display policy = Inr p \<Longrightarrow> well_typed_plan C kind p"
  "plan_multisig_address C kind threshold sort_keys ms keys = Inr p \<Longrightarrow> well_typed_plan C kind p"
proof -
  assume "plan_display_address C kind path display format = Inr p"
  moreover have "map_option address_format_to_core format = Some P2tr \<longleftrightarrow> format = Some Taproot"
    using address_format_to_core_inj [of _ Taproot] by auto
  ultimately show "well_typed_plan C kind p"
    by (auto simp: plan_display_address_def well_typed_plan_def result_simps)
next
  assume "plan_descriptor_address C kind index change display policy = Inr p"
  then show "well_typed_plan C kind p"
    by (auto simp: plan_descriptor_address_def well_typed_plan_def result_simps word_le_nat_alt
        dest: policy_context_typed simp del: policy_name_valid.simps)
next
  assume "plan_multisig_address C kind threshold sort_keys ms keys = Inr p"
  moreover have "threshold \<noteq> 0 \<longleftrightarrow> 1 \<le> unat threshold"
    by (metis One_nat_def Suc_le_eq neq0_conv unat_eq_zero)
  ultimately show "well_typed_plan C kind p"
    by (auto simp: plan_multisig_address_def well_typed_plan_def result_simps
        dest!: parse_concrete_keys_typed)
qed

text \<open>
  C16: plans are well typed. Whatever command a host sends, and for every family, a plan that
  preflight lets through carries a core command typed for that family and expects the response
  type of that very core command; so no device sees a context of another family, a hardened
  address index, a foreign name or key, or a threshold beyond its keys.
\<close>

theorem plan_well_typed:
  assumes "plan C cmd kind = Inr p"
  shows "well_typed_plan C kind p"
proof (cases cmd)
  case (SendPin positions)
  with assms show ?thesis
    by (cases kind) (auto simp: plan_send_pin_def well_typed_plan_def result_simps)
next
  case (RegisterWallet name descriptor)
  with assms show ?thesis
    by (auto simp: plan_register_wallet_def well_typed_plan_def result_simps
        dest: parse_public_policy_typed validate_policy_name_typed simp del: policy_name_valid.simps)
qed (use assms in \<open>auto simp: well_typed_plan_def result_simps
  dest: display_plans_typed sign_plan_typed [unfolded well_typed_plan_def]\<close>)

text \<open>A PIN for a Trezor.\<close>

theorem plan_well_typed_witness:
  "well_typed_plan sample_crates KTrezor
     (mk_plan (CmdSendPin (Some (TrezorManagementPin (HostPin ''159'')))) ExpectDeviceAction)"
  by (rule plan_well_typed [where cmd = "SendPin ''159''"])
    (simp add: plan_send_pin_def sample_crates_def byte_in_def)

end
