(* ===== verification/Helpers.thy ===== *)
theory Helpers
  imports Wire
begin

text \<open>
  The pure helpers of \<open>helpers.rs\<close>: the singlesig descriptor of an account, the derivation of a
  range of addresses, and the summary of a PSBT with its fee. Ranges and sums are on machine
  integers with the checks the code makes, and the theorems say they never wrap.
\<close>

section \<open>Records\<close>

record address_entry =
  ae_index :: u32
  ae_address :: string

record input_summary =
  is_prev_txid :: string
  is_vout :: u32
  is_amount_sat :: "u64 option"

record output_summary =
  os_address :: "string option"
  os_amount_sat :: u64

record psbt_summary =
  sum_inputs :: "input_summary list"
  sum_outputs :: "output_summary list"
  sum_fee_sat :: "u64 option"

definition MAX_DERIVE_COUNT :: u32 where
  "MAX_DERIVE_COUNT = 1000"

section \<open>Standard descriptors\<close>

text \<open>Both \<open>m/84'/0'/0'\<close> and \<open>84'/0'/0'\<close>.\<close>

definition trim_origin :: "string \<Rightarrow> string" where
  "trim_origin origin_path =
     trim_end_char CHR ''/'' (trim_start_char CHR ''/''
       (trim_start_char CHR ''m'' (str_trim origin_path)))"

fun wrap_key :: "address_format \<Rightarrow> string \<Rightarrow> string" where
  "wrap_key Legacy key = ''pkh('' @ key @ '')''"
| "wrap_key NestedSegwit key = ''sh(wpkh('' @ key @ ''))''"
| "wrap_key NativeSegwit key = ''wpkh('' @ key @ '')''"
| "wrap_key Taproot key = ''tr('' @ key @ '')''"

definition account_key_text :: "crates \<Rightarrow> fingerprint \<Rightarrow> string \<Rightarrow> xpub \<Rightarrow> string" where
  "account_key_text C fingerprint origin xpub =
     (if origin = []
      then ''['' @ fingerprint_to_string C fingerprint @ '']'' @ xpub_to_string C xpub @ ''/<0;1>/*''
      else ''['' @ fingerprint_to_string C fingerprint @ ''/'' @ origin @ '']''
        @ xpub_to_string C xpub @ ''/<0;1>/*'')"

definition build_singlesig_descriptor ::
    "crates \<Rightarrow> string \<Rightarrow> string \<Rightarrow> string \<Rightarrow> address_format \<Rightarrow> network \<Rightarrow> hwi_error + string" where
  "build_singlesig_descriptor C xpub fingerprint origin_path kind network =
     and_then (ok_or (invalid ''invalid extended public key'') (xpub_from_str C (str_trim xpub)))
       (\<lambda>parsed_xpub.
     let expected = network_kind_of C (network_to_core network) in
     and_then (require (\<not> xpub_network parsed_xpub \<noteq> expected)
       (invalid ''extended public key does not match the requested network'')) (\<lambda>_.
     and_then (ok_or (invalid ''invalid master fingerprint'')
       (fingerprint_from_str C (str_trim fingerprint))) (\<lambda>fingerprint.
     let origin = trim_origin origin_path in
     let key = account_key_text C fingerprint origin parsed_xpub in
     let descriptor = wrap_key kind key in
     map_ok (desc_to_string C)
       (ok_or (invalid ''invalid descriptor'') (desc_from_str C descriptor)))))"

section \<open>Derivation of addresses\<close>

definition u32_checked_add :: "u32 \<Rightarrow> u32 \<Rightarrow> u32 option" where
  "u32_checked_add a b = (if unat a + unat b < 2 ^ 32 then Some (a + b) else None)"

definition list_get :: "'a list \<Rightarrow> nat \<Rightarrow> 'a option" where
  "list_get xs i = (if i < length xs then Some (xs ! i) else None)"

text \<open>\<open>for index in start..end\<close>\<close>

definition u32_range :: "u32 \<Rightarrow> u32 \<Rightarrow> u32 list" where
  "u32_range a b = map word_of_nat [unat a ..< unat b]"

definition derive_entry ::
    "crates \<Rightarrow> descriptor \<Rightarrow> core_network \<Rightarrow> u32 \<Rightarrow> hwi_error + address_entry" where
  "derive_entry C branch network index =
     and_then (map_err invalid (desc_derive_at_index C branch index)) (\<lambda>definite.
     and_then (map_err invalid (definite_address C definite network)) (\<lambda>address.
     Inr \<lparr>ae_index = index, ae_address = address\<rparr>))"

definition derive_addresses ::
    "crates \<Rightarrow> string \<Rightarrow> network \<Rightarrow> bool \<Rightarrow> u32 \<Rightarrow> u32 \<Rightarrow> hwi_error + address_entry list" where
  "derive_addresses C descriptor network change start count =
     and_then (require (\<not> MAX_DERIVE_COUNT < count)
       (invalid (''count must be at most '' @ show_nat (unat MAX_DERIVE_COUNT)))) (\<lambda>_.
     and_then (ok_or (invalid ''derivation index range overflows'') (u32_checked_add start count))
       (\<lambda>end_index.
     and_then (ok_or (invalid ''invalid descriptor'') (desc_from_str C (str_trim descriptor)))
       (\<lambda>parsed.
     and_then (map_err invalid (desc_into_single C parsed)) (\<lambda>branches.
     and_then (ok_or (invalid ''descriptor has no change branch'')
       (list_get branches (if change then 1 else 0))) (\<lambda>branch.
     try_map (derive_entry C branch (network_to_core network)) (u32_range start end_index))))))"

section \<open>PSBT summary\<close>

definition utxo_at :: "psbt \<Rightarrow> nat \<Rightarrow> txin \<Rightarrow> txout option" where
  "utxo_at p index txin = Option.bind (list_get (ps_inputs p) index) (\<lambda>input.
     case pi_witness_utxo input of
       Some utxo \<Rightarrow> Some utxo
     | None \<Rightarrow> Option.bind (pi_non_witness_utxo input) (\<lambda>tx.
         list_get (tx_output tx) (unat (op_vout (txin_previous_output txin)))))"

fun summarize_inputs ::
    "crates \<Rightarrow> psbt \<Rightarrow> nat \<Rightarrow> txin list \<Rightarrow> amount option \<Rightarrow> input_summary list
     \<Rightarrow> amount option \<times> input_summary list" where
  "summarize_inputs C p index [] total_in inputs = (total_in, inputs)"
| "summarize_inputs C p index (txin # txins) total_in inputs =
     (let utxo = utxo_at p index txin;
          total_in' = (case (total_in, utxo) of
             (Some subtotal, Some utxo) \<Rightarrow> amount_checked_add C subtotal (txout_value utxo)
           | _ \<Rightarrow> None)
      in summarize_inputs C p (Suc index) txins total_in'
           (inputs @ [\<lparr>is_prev_txid = txid_to_string C (op_txid (txin_previous_output txin)),
              is_vout = op_vout (txin_previous_output txin),
              is_amount_sat = map_option txout_value utxo\<rparr>]))"

fun summarize_outputs ::
    "crates \<Rightarrow> core_network \<Rightarrow> txout list \<Rightarrow> amount option
     \<Rightarrow> amount option \<times> output_summary list" where
  "summarize_outputs C network [] total_out = (total_out, [])"
| "summarize_outputs C network (txout # txouts) total_out =
     (let total_out' = Option.bind total_out (\<lambda>subtotal. amount_checked_add C subtotal (txout_value txout));
          (total, rest) = summarize_outputs C network txouts total_out'
      in (total, \<lparr>os_address = address_from_script C (txout_script_pubkey txout) network,
                  os_amount_sat = txout_value txout\<rparr> # rest))"

definition psbt_summary :: "crates \<Rightarrow> string \<Rightarrow> network \<Rightarrow> hwi_error + psbt_summary" where
  "psbt_summary C psbt_base64 network =
     and_then (decode_psbt C psbt_base64) (\<lambda>psbt.
     let (total_in, inputs) =
           summarize_inputs C psbt 0 (tx_input (ps_unsigned_tx psbt)) (Some 0) [];
         (total_out, outputs) =
           summarize_outputs C (network_to_core network) (tx_output (ps_unsigned_tx psbt)) (Some 0);
         fee_sat = (case (total_in, total_out) of
             (Some input, Some output) \<Rightarrow> amount_checked_sub C input output
           | _ \<Rightarrow> None)
     in Inr \<lparr>sum_inputs = inputs, sum_outputs = outputs, sum_fee_sat = fee_sat\<rparr>)"

section \<open>Properties of the descriptors\<close>

text \<open>
  The descriptor built for an account. It is the canonical text of the descriptor that wraps
  the key, with its origin, in the script of the requested kind, for an extended key of the
  requested network; every other combination is refused.
\<close>

lemma build_singlesig_iff:
  "build_singlesig_descriptor C xpub fp origin kind network = Inr text \<longleftrightarrow>
     (\<exists>x f d. xpub_from_str C (str_trim xpub) = Some x
        \<and> xpub_network x = network_kind_of C (network_to_core network)
        \<and> fingerprint_from_str C (str_trim fp) = Some f
        \<and> desc_from_str C (wrap_key kind (account_key_text C f (trim_origin origin) x)) = Some d
        \<and> text = desc_to_string C d)"
  by (auto simp: build_singlesig_descriptor_def result_simps Let_def)

lemma trim_start_other: "\<not> starts_with_char c s \<Longrightarrow> trim_start_char c s = s"
  by (cases s) (simp_all add: trim_start_char_def starts_with_char_def)

lemma trim_origin_prefix:
  assumes "no_space_ascii p" and "\<not> starts_with_char CHR ''m'' p"
  shows "trim_origin (''m/'' @ p) = trim_origin p"
proof -
  have "no_space_ascii (''m/'' @ p)" using assms(1) by (simp add: no_space_ascii_def byte_in_def)
  then have t: "str_trim (''m/'' @ p) = ''m/'' @ p" "str_trim p = p"
    using assms(1) by (simp_all only: str_trim_graphic)
  have "trim_start_char CHR ''m'' (''m/'' @ p) = CHR ''/'' # p"
    by (simp add: trim_start_char_def)
  moreover have "trim_start_char CHR ''m'' p = p" using trim_start_other [OF assms(2)] .
  ultimately show ?thesis unfolding trim_origin_def t by simp
qed

text \<open>
  An origin path may be written with or without its leading \<open>m/\<close>: the same descriptor, or
  the same error, comes out.
\<close>

lemma origin_prefix_optional:
  assumes "no_space_ascii origin" and "\<not> starts_with_char CHR ''m'' origin"
  shows "build_singlesig_descriptor C xpub fp (''m/'' @ origin) kind network
    = build_singlesig_descriptor C xpub fp origin kind network"
  using trim_origin_prefix [OF assms] by (simp add: build_singlesig_descriptor_def)

section \<open>Properties of the derivation\<close>

lemma u32_add_exact:
  "unat a + unat b < 2 ^ 32 \<Longrightarrow> unat (a + b :: u32) = unat a + unat b"
  by (rule unat_add_lem [THEN iffD1]) simp

lemma u32_range_length [simp]: "length (u32_range a b) = unat b - unat a"
  by (simp add: u32_range_def)

lemma u32_range_add:
  assumes "unat a + unat n < 2 ^ 32"
  shows "u32_range a (a + n) = map (\<lambda>i. a + word_of_nat i) [0 ..< unat n]"
proof (rule nth_equalityI)
  show "length (u32_range a (a + n)) = length (map (\<lambda>i. a + word_of_nat i) [0 ..< unat n])"
    by (simp add: u32_add_exact [OF assms])
  fix i assume "i < length (u32_range a (a + n))"
  then have "i < unat n" by (simp add: u32_add_exact [OF assms])
  then show "u32_range a (a + n) ! i = map (\<lambda>i. a + word_of_nat i) [0 ..< unat n] ! i"
    by (simp add: u32_range_def u32_add_exact [OF assms])
qed

text \<open>The branch of the descriptor that the request is about.\<close>

definition derivation_branch :: "crates \<Rightarrow> string \<Rightarrow> bool \<Rightarrow> descriptor option" where
  "derivation_branch C descriptor change =
     Option.bind (desc_from_str C (str_trim descriptor)) (\<lambda>d.
       case desc_into_single C d of
         Inl e \<Rightarrow> None
       | Inr branches \<Rightarrow> list_get branches (if change then 1 else 0))"

lemma derivation_branch_eq:
  "derivation_branch C descriptor change = Some branch \<longleftrightarrow>
     (\<exists>d bs. desc_from_str C (str_trim descriptor) = Some d \<and> desc_into_single C d = Inr bs
        \<and> list_get bs (if change then 1 else 0) = Some branch)"
  by (cases "desc_from_str C (str_trim descriptor)")
    (simp_all add: derivation_branch_def split: sum.splits)

lemma derive_addresses_ok:
  "derive_addresses C descriptor network change start count = Inr entries \<longleftrightarrow>
     unat count \<le> 1000 \<and> unat start + unat count < 2 ^ 32
     \<and> (\<exists>branch. derivation_branch C descriptor change = Some branch
          \<and> list_all2 (\<lambda>index entry. derive_entry C branch (network_to_core network) index = Inr entry)
              (u32_range start (start + count)) entries)"
proof -
  have "\<not> MAX_DERIVE_COUNT < count \<longleftrightarrow> unat count \<le> 1000"
    by (simp add: MAX_DERIVE_COUNT_def word_less_nat_alt not_less)
  then show ?thesis
    by (auto simp: derive_addresses_def derivation_branch_eq result_simps u32_checked_add_def
        try_map_eq_Inr)
qed

lemma derive_entry_index: "derive_entry C b n i = Inr e \<Longrightarrow> ae_index e = i"
  by (auto simp: derive_entry_def result_simps)

text \<open>
  C31: a derivation returns exactly the addresses asked for: at most a thousand, of the branch asked
  for, at \<open>start\<close>, \<open>start + 1\<close> and so on in order, never wrapping around 32 bits; a
  descriptor without that branch, or one failing address, gives an error and no list.
\<close>

theorem derive_addresses_iff:
  "derive_addresses C descriptor network change start count = Inr entries \<longleftrightarrow>
     unat count \<le> 1000 \<and> unat start + unat count < 2 ^ 32
     \<and> (\<exists>branch. derivation_branch C descriptor change = Some branch
          \<and> map (\<lambda>i. derive_entry C branch (network_to_core network) (start + word_of_nat i))
               [0 ..< unat count] = map Inr entries)"
proof (cases "unat start + unat count < 2 ^ 32")
  case True
  have "list_all2 (\<lambda>index entry. f index = Inr entry) xs ys \<longleftrightarrow> map f xs = map Inr ys"
    for f :: "u32 \<Rightarrow> hwi_error + address_entry" and xs ys
    by (simp add: list_all2_conv_all_nth list_eq_iff_nth_eq) auto
  with True show ?thesis
    by (simp add: derive_addresses_ok u32_range_add list_all2_map1 o_def)
next
  case False
  then show ?thesis by (simp add: derive_addresses_ok)
qed

lemma list_all2_split:
  "list_all2 P (xs @ ys) zs \<longleftrightarrow> (\<exists>a b. zs = a @ b \<and> list_all2 P xs a \<and> list_all2 P ys b)"
  by (auto simp: list_all2_append1 dest: list_all2_lengthD) (metis list_all2_lengthD)

text \<open>
  C33: derivation in pages. Deriving a range in two consecutive pages gives the same entries as
  deriving it at once, and fails when and only when one of the pages does.
\<close>

theorem derive_in_pages:
  assumes "unat c1 + unat c2 \<le> 1000"
  shows "derive_addresses C descriptor network change start (c1 + c2) = Inr entries \<longleftrightarrow>
    (\<exists>a b. derive_addresses C descriptor network change start c1 = Inr a
       \<and> derive_addresses C descriptor network change (start + c1) c2 = Inr b
       \<and> entries = a @ b)"
proof (cases "unat start + unat c1 + unat c2 < 2 ^ 32")
  case True
  have sums: "unat (c1 + c2) = unat c1 + unat c2" "unat (start + c1) = unat start + unat c1"
    using True by (simp_all add: u32_add_exact)
  have "u32_range start (start + (c1 + c2))
      = u32_range start (start + c1) @ u32_range (start + c1) (start + c1 + c2)"
    using True sums upt_add_eq_append [of "unat start" "unat start + unat c1" "unat c2"]
    by (simp add: u32_range_def u32_add_exact add.assoc)
  note split = this
  show ?thesis
  proof (cases "derivation_branch C descriptor change")
    case None
    then show ?thesis by (simp add: derive_addresses_ok)
  next
    case (Some branch)
    with assms True sums show ?thesis
      by (auto simp: derive_addresses_ok split list_all2_split)
  qed
next
  case False
  have "unat (c1 + c2) = unat c1 + unat c2" using assms by (simp add: u32_add_exact)
  moreover have "unat start + unat c1 < 2 ^ 32 \<Longrightarrow> unat (start + c1) = unat start + unat c1"
    by (rule u32_add_exact)
  ultimately show ?thesis using False by (auto simp: derive_addresses_ok)
qed

definition sample_entries :: "address_entry list" where
  "sample_entries = map (\<lambda>i. \<lparr>ae_index = i, ae_address = ''change''\<rparr>) [5, 6, 7, 8, 9]"

theorem derive_in_pages_witness:
  "derive_addresses sample_crates ''wpkh'' Regtest True 5 (2 + 3) = Inr sample_entries \<longleftrightarrow>
    (\<exists>a b. derive_addresses sample_crates ''wpkh'' Regtest True 5 2 = Inr a
       \<and> derive_addresses sample_crates ''wpkh'' Regtest True (5 + 2) 3 = Inr b
       \<and> sample_entries = a @ b)"
  by (rule derive_in_pages) simp

section \<open>Properties of the summary\<close>

text \<open>The UTXOs the PSBT itself carries for the inputs of its transaction, in order.\<close>

definition spent_utxos :: "psbt \<Rightarrow> nat \<Rightarrow> txin list \<Rightarrow> txout option list" where
  "spent_utxos p i txins = map (\<lambda>(index, txin). utxo_at p index txin) (zip [i ..< i + length txins] txins)"

definition value_sum :: "txout list \<Rightarrow> nat" where
  "value_sum os = (\<Sum>o' \<leftarrow> os. unat (txout_value o'))"

definition input_line :: "crates \<Rightarrow> txin \<Rightarrow> txout option \<Rightarrow> input_summary" where
  "input_line C txin utxo = \<lparr>is_prev_txid = txid_to_string C (op_txid (txin_previous_output txin)),
     is_vout = op_vout (txin_previous_output txin), is_amount_sat = map_option txout_value utxo\<rparr>"

lemma spent_utxos_Cons: "spent_utxos p i (t # ts) = utxo_at p i t # spent_utxos p (Suc i) ts"
  by (simp add: spent_utxos_def upt_conv_Cons del: upt_Suc)

text \<open>The exact sum of satoshi, where every value is known and the sum is a \<open>u64\<close>.\<close>

definition exact_sum :: "nat \<Rightarrow> txout option list \<Rightarrow> amount option" where
  "exact_sum n us = (if None \<notin> set us \<and> n + value_sum (map the us) < 2 ^ 64
     then Some (word_of_nat (n + value_sum (map the us))) else None)"

lemma exact_sum_Nil [simp]: "exact_sum (unat a) [] = Some a"
  using unsigned_less [of a, where ?'a = nat] by (simp add: exact_sum_def value_sum_def)

lemma exact_sum_Cons:
  assumes "amounts_ok C"
  shows "exact_sum (unat a) (u # us) = (case u of None \<Rightarrow> None
    | Some o' \<Rightarrow> Option.bind (amount_checked_add C a (txout_value o'))
        (\<lambda>s. exact_sum (unat s) us))"
proof (cases u)
  case None
  then show ?thesis by (simp add: exact_sum_def)
next
  case (Some o')
  have "unat (a + txout_value o') = unat a + unat (txout_value o')"
    if "unat a + unat (txout_value o') < 2 ^ 64"
    using that unat_add_lem [of a "txout_value o'"] by simp
  with Some assms show ?thesis
    by (auto simp: amounts_ok_def exact_sum_def value_sum_def add.assoc)
qed

lemma summarize_inputs_spec:
  assumes ok: "amounts_ok C"
  shows "summarize_inputs C p i txins subtotal lines =
    (Option.bind subtotal (\<lambda>a. exact_sum (unat a) (spent_utxos p i txins)),
     lines @ map2 (input_line C) txins (spent_utxos p i txins))"
proof (induction txins arbitrary: i subtotal lines)
  case Nil
  then show ?case by (cases subtotal) (simp_all add: spent_utxos_def)
next
  case (Cons t ts)
  then show ?case
    by (cases subtotal; cases "utxo_at p i t")
      (simp_all add: spent_utxos_Cons exact_sum_Cons [OF ok] input_line_def)
qed

lemma summarize_outputs_spec:
  assumes ok: "amounts_ok C"
  shows "summarize_outputs C network txouts subtotal =
    (Option.bind subtotal (\<lambda>a. exact_sum (unat a) (map Some txouts)),
     map (\<lambda>t. \<lparr>os_address = address_from_script C (txout_script_pubkey t) network,
                os_amount_sat = txout_value t\<rparr>) txouts)"
  by (induction txouts arbitrary: subtotal)
    (auto simp: exact_sum_Cons [OF ok] split: option.splits)

lemma exact_sum_zero:
  "exact_sum 0 us = Some a \<longleftrightarrow>
     None \<notin> set us \<and> value_sum (map the us) < 2 ^ 64 \<and> unat a = value_sum (map the us)"
  using unsigned_less [of a, where ?'a = nat]
  by (auto simp: exact_sum_def word_unat_eq_iff unat_of_nat)

lemma fee_exact:
  assumes "amounts_ok C"
  shows "(case (exact_sum 0 ins, exact_sum 0 outs) of
      (Some a, Some b) \<Rightarrow> amount_checked_sub C a b | _ \<Rightarrow> None) = Some fee \<longleftrightarrow>
    None \<notin> set ins \<and> None \<notin> set outs
    \<and> value_sum (map the ins) < 2 ^ 64 \<and> value_sum (map the outs) \<le> value_sum (map the ins)
    \<and> unat fee = value_sum (map the ins) - value_sum (map the outs)"
proof (cases "\<exists>a b. exact_sum 0 ins = Some a \<and> exact_sum 0 outs = Some b")
  case True
  then obtain a b where ab: "exact_sum 0 ins = Some a" "exact_sum 0 outs = Some b" by blast
  have "a - b = fee \<longleftrightarrow> unat fee = unat a - unat b" if "unat b \<le> unat a"
    using that by (auto simp: unat_sub word_le_nat_alt word_unat_eq_iff)
  with assms ab [unfolded exact_sum_zero] show ?thesis
    by (simp add: ab amounts_ok_def)
next
  case False
  then show ?thesis
    by (auto simp: exact_sum_def split: if_splits option.splits)
qed

lemma psbt_summary_spec:
  assumes "amounts_ok C" and "decode_psbt C text = Inr p"
  shows "\<exists>s. psbt_summary C text network = Inr s
    \<and> (let tx = ps_unsigned_tx p; utxos = spent_utxos p 0 (tx_input tx) in
       sum_inputs s = map2 (input_line C) (tx_input tx) utxos
       \<and> sum_outputs s = map (\<lambda>t. \<lparr>os_address = address_from_script C (txout_script_pubkey t)
             (network_to_core network), os_amount_sat = txout_value t\<rparr>) (tx_output tx)
       \<and> (sum_fee_sat s = Some fee \<longleftrightarrow>
            None \<notin> set utxos \<and> value_sum (map the utxos) < 2 ^ 64
            \<and> value_sum (tx_output tx) \<le> value_sum (map the utxos)
            \<and> unat fee = value_sum (map the utxos) - value_sum (tx_output tx)))"
  using fee_exact [OF assms(1), of "spent_utxos p 0 (tx_input (ps_unsigned_tx p))"
      "map Some (tx_output (ps_unsigned_tx p))" fee]
  by (auto simp: psbt_summary_def assms(2) summarize_inputs_spec [OF assms(1)]
      summarize_outputs_spec [OF assms(1)] Let_def o_def)

text \<open>
  C32: the summary shown before signing tells the truth. It lists the inputs and outputs of the
  unsigned transaction in order, and gives a fee exactly when every input's value is known and
  inputs cover outputs without overflowing a \<open>u64\<close>; the fee is then their exact difference.
\<close>

theorem psbt_summary_exact:
  assumes "amounts_ok C" and "decode_psbt C text = Inr p"
  shows "\<exists>s. psbt_summary C text network = Inr s
    \<and> (let tx = ps_unsigned_tx p; utxos = spent_utxos p 0 (tx_input tx) in
       sum_inputs s = map2 (input_line C) (tx_input tx) utxos
       \<and> sum_outputs s = map (\<lambda>t. \<lparr>os_address = address_from_script C (txout_script_pubkey t)
             (network_to_core network), os_amount_sat = txout_value t\<rparr>) (tx_output tx)
       \<and> (sum_fee_sat s = Some fee \<longleftrightarrow>
            None \<notin> set utxos \<and> value_sum (map the utxos) < 2 ^ 64
            \<and> value_sum (tx_output tx) \<le> value_sum (map the utxos)
            \<and> unat fee = value_sum (map the utxos) - value_sum (tx_output tx)))"
  using assms by (rule psbt_summary_spec)

theorem psbt_summary_exact_witness:
  "\<exists>s. psbt_summary sample_crates (encode_psbt sample_crates sample_psbt) Regtest = Inr s
    \<and> (let tx = ps_unsigned_tx sample_psbt; utxos = spent_utxos sample_psbt 0 (tx_input tx) in
       sum_inputs s = map2 (input_line sample_crates) (tx_input tx) utxos
       \<and> sum_outputs s = map (\<lambda>t. \<lparr>os_address = address_from_script sample_crates
             (txout_script_pubkey t) (network_to_core Regtest),
             os_amount_sat = txout_value t\<rparr>) (tx_output tx)
       \<and> (sum_fee_sat s = Some 1000 \<longleftrightarrow>
            None \<notin> set utxos \<and> value_sum (map the utxos) < 2 ^ 64
            \<and> value_sum (tx_output tx) \<le> value_sum (map the utxos)
            \<and> unat (1000 :: u64) = value_sum (map the utxos) - value_sum (tx_output tx)))"
  by (rule psbt_summary_exact [OF sample_amounts_ok], rule psbt_encode_decode [OF sample_base64_ok])
    (simp add: sample_crates_def)

end
