(* ===== verification/Derive_Loop.thy ===== *)
theory Derive_Loop
  imports Helpers
begin

text \<open>
  The loop of \<open>derive_addresses\<close> as the machine runs it: an iterator over a half-open range of
  \<open>u32\<close>s, stepped until it is empty, and a vector that grows. A loop that never ended would have
  no result here; that it has one for every input, also at the very end of the index space, is
  the theorem.
\<close>

section \<open>The iterator and the loop\<close>

text \<open>\<open>Range<u32>::next\<close>: the yielded index and the rest of the range.\<close>

fun range_next :: "u32 \<times> u32 \<Rightarrow> (u32 \<times> u32 \<times> u32) option" where
  "range_next (next_index, end_index) =
     (if next_index < end_index then Some (next_index, next_index + 1, end_index) else None)"

partial_function (option) derive_loop ::
    "crates \<Rightarrow> descriptor \<Rightarrow> core_network \<Rightarrow> u32 \<times> u32 \<Rightarrow> address_entry list
     \<Rightarrow> (hwi_error + address_entry list) option" where
  "derive_loop C branch network indices entries = (case range_next indices of
       None \<Rightarrow> Some (Inr entries)
     | Some (index, rest) \<Rightarrow> (case derive_entry C branch network index of
           Inl e \<Rightarrow> Some (Inl e)
         | Inr entry \<Rightarrow> derive_loop C branch network rest (entries @ [entry])))"

text \<open>Everything before the loop: the bounds, the branch and the end of the range.\<close>

definition derive_setup ::
    "crates \<Rightarrow> string \<Rightarrow> bool \<Rightarrow> u32 \<Rightarrow> u32 \<Rightarrow> hwi_error + descriptor \<times> u32" where
  "derive_setup C descriptor change start count =
     and_then (require (\<not> MAX_DERIVE_COUNT < count)
       (invalid (''count must be at most '' @ show_nat (unat MAX_DERIVE_COUNT)))) (\<lambda>_.
     and_then (ok_or (invalid ''derivation index range overflows'') (u32_checked_add start count))
       (\<lambda>end_index.
     and_then (ok_or (invalid ''invalid descriptor'') (desc_from_str C (str_trim descriptor)))
       (\<lambda>parsed.
     and_then (map_err invalid (desc_into_single C parsed)) (\<lambda>branches.
     and_then (ok_or (invalid ''descriptor has no change branch'')
       (list_get branches (if change then 1 else 0))) (\<lambda>branch.
     Inr (branch, end_index))))))"

definition derive_addresses_run ::
    "crates \<Rightarrow> string \<Rightarrow> network \<Rightarrow> bool \<Rightarrow> u32 \<Rightarrow> u32
     \<Rightarrow> (hwi_error + address_entry list) option" where
  "derive_addresses_run C descriptor network change start count =
     (case derive_setup C descriptor change start count of
        Inl e \<Rightarrow> Some (Inl e)
      | Inr (branch, end_index) \<Rightarrow>
          derive_loop C branch (network_to_core network) (start, end_index) [])"

section \<open>The loop returns\<close>

lemma u32_range_empty: "\<not> a < b \<Longrightarrow> u32_range a b = []"
  by (simp add: u32_range_def word_less_nat_alt)

lemma u32_succ: "a < b \<Longrightarrow> unat (a + 1 :: u32) = Suc (unat a)"
  using unsigned_less [of b, where ?'a = nat] u32_add_exact [of a 1]
  by (simp add: word_less_nat_alt)

lemma u32_range_step:
  assumes "a < b"
  shows "u32_range a b = a # u32_range (a + 1) b"
proof -
  have "[unat a ..< unat b] = unat a # [Suc (unat a) ..< unat b]"
    using assms by (simp add: upt_conv_Cons word_less_nat_alt)
  then show ?thesis by (simp add: u32_range_def u32_succ [OF assms])
qed

text \<open>The measure of the loop is what is left of the range; the index never wraps.\<close>

lemma derive_loop_returns:
  "derive_loop C branch network (a, b) entries =
     Some (map_ok (\<lambda>es. entries @ es) (try_map (derive_entry C branch network) (u32_range a b)))"
proof (induction "unat b - unat a" arbitrary: a entries)
  case 0
  then have "\<not> a < b" by (simp add: word_less_nat_alt)
  then show ?case by (simp add: derive_loop.simps u32_range_empty)
next
  case (Suc n)
  then have lt: "a < b" by (simp add: word_less_nat_alt)
  then have "n = unat b - unat (a + 1)" using Suc.hyps(2) by (simp add: u32_succ)
  note IH = Suc.hyps(1) [OF this]
  show ?case
  proof (cases "derive_entry C branch network a")
    case (Inl e)
    with lt show ?thesis by (subst derive_loop.simps) (simp add: u32_range_step)
  next
    case (Inr entry)
    have "derive_loop C branch network (a, b) entries
        = derive_loop C branch network (a + 1, b) (entries @ [entry])"
      using lt Inr by (subst derive_loop.simps) simp
    then show ?thesis
      using IH [of "entries @ [entry]"] lt Inr
      by (cases "try_map (derive_entry C branch network) (u32_range (a + 1) b)")
        (simp_all add: u32_range_step)
  qed
qed

lemma derive_addresses_setup:
  "derive_addresses C descriptor network change start count =
     and_then (derive_setup C descriptor change start count) (\<lambda>(branch, end_index).
       try_map (derive_entry C branch (network_to_core network)) (u32_range start end_index))"
  by (auto simp: derive_addresses_def derive_setup_def and_then_def split: sum.splits)

text \<open>
  C24: the derivation loop terminates. For every input, \<open>start\<close> and \<open>count\<close> up to the last 32-bit
  index included, stepping the range until it is empty returns after finitely many steps, with
  the entries of the consecutive indices or with the first error; the index never wraps.
\<close>

theorem derive_loop_terminates:
  "derive_addresses_run C descriptor network change start count =
     Some (derive_addresses C descriptor network change start count)"
proof (cases "derive_setup C descriptor change start count")
  case (Inl e)
  then show ?thesis by (simp add: derive_addresses_run_def derive_addresses_setup)
next
  case (Inr r)
  then show ?thesis
    by (cases r)
      (simp add: derive_addresses_run_def derive_addresses_setup derive_loop_returns map_ok_def
        split: sum.splits)
qed

end
