(* ===== verification/Unit_Tests.thy ===== *)
theory Unit_Tests
  imports Commands Helpers Handles
begin

text \<open>
  The crate's own unit tests, translated assertion by assertion (the \<open>mod tests\<close> of \<open>types.rs\<close>,
  \<open>state.rs\<close> and \<open>helpers.rs\<close>), as a check of the definitions: each is a bool, true on the model
  exactly when the test passes. Where a test runs third-party code, that code is an argument and
  the facts the test takes from it are named hypotheses. Assertions about memory addresses and
  about the \<open>Debug\<close> output of third-party types have no counterpart.
\<close>

section \<open>Assertions\<close>

definition is_err :: "('e \<Rightarrow> bool) \<Rightarrow> 'e + 'r \<Rightarrow> bool" where
  "is_err P r = (case r of Inl e \<Rightarrow> P e | Inr _ \<Rightarrow> False)"

definition on_ok :: "('r \<Rightarrow> bool) \<Rightarrow> 'e + 'r \<Rightarrow> bool" where
  "on_ok P r = (case r of Inl _ \<Rightarrow> False | Inr x \<Rightarrow> P x)"

lemma assertion_simps [simp]:
  "is_err P (Inl e) \<longleftrightarrow> P e" "\<not> is_err P (Inr x)"
  "on_ok Q (Inr x) \<longleftrightarrow> Q x" "\<not> on_ok Q (Inl e)"
  by (simp_all add: is_err_def on_ok_def)

text \<open>\<open>str::contains\<close> and \<open>str::starts_with\<close>.\<close>

definition str_starts_with :: "string \<Rightarrow> string \<Rightarrow> bool" where
  "str_starts_with start s = (take (length start) s = start)"

fun str_contains :: "string \<Rightarrow> string \<Rightarrow> bool" where
  "str_contains needle [] = (needle = [])"
| "str_contains needle (c # s) = (str_starts_with needle (c # s) \<or> str_contains needle s)"

lemma str_starts_with_append [simp]: "str_starts_with a (a @ b)"
  by (simp add: str_starts_with_def)

lemma str_contains_start: "str_starts_with needle s \<Longrightarrow> str_contains needle s"
  by (cases s) (simp_all add: str_starts_with_def)

lemma str_contains_mid: "str_contains b (a @ b @ c)"
  by (induction a) (simp_all add: str_contains_start)

text \<open>The derived \<open>Debug\<close> of \<open>HwiError\<close>; \<open>quote\<close> is that of \<open>str\<close>.\<close>

fun hwi_error_debug :: "(string \<Rightarrow> string) \<Rightarrow> hwi_error \<Rightarrow> string" where
  "hwi_error_debug quote (Device msg) = ''Device { msg: '' @ quote msg @ '' }''"
| "hwi_error_debug quote UserRefused = ''UserRefused''"
| "hwi_error_debug quote AuthRefused = ''AuthRefused''"
| "hwi_error_debug quote DeviceAlreadyUnlocked = ''DeviceAlreadyUnlocked''"
| "hwi_error_debug quote (InvalidInput msg) = ''InvalidInput { msg: '' @ quote msg @ '' }''"
| "hwi_error_debug quote (BadState msg) = ''BadState { msg: '' @ quote msg @ '' }''"
| "hwi_error_debug quote (Internal msg) = ''Internal { msg: '' @ quote msg @ '' }''"

section \<open>types.rs\<close>

definition all_kinds :: "device_kind list" where
  "all_kinds = [KLedger, KColdcard, KBitBox, KJade, KTrezor, KKeepKey, KSpecter]"

fun is_device :: "hwi_error \<Rightarrow> bool" where
  "is_device (Device msg) = True"
| "is_device _ = False"

definition refusal_mapping_uses_only_typed_errors :: bool where
  "refusal_mapping_uses_only_typed_errors = list_all (\<lambda>kind.
     map_error CUserCancelled kind = UserRefused
     \<and> map_error CAuthenticationRefused kind = AuthRefused
     \<and> list_all (\<lambda>source. is_device (map_error source kind))
         [CNoErrorOrResult, CRpc (-32000) None, CUnexpectedResult [] ''got Refu'']) all_kinds"

definition canary :: string where
  "canary = ''ffi-redaction-canary''"

definition bytes_of :: "string \<Rightarrow> bytes" where
  "bytes_of s = map (\<lambda>c. word_of_nat (of_char c)) s"

text \<open>The message of an error that must be \<open>InvalidInput\<close> or must be \<open>Device\<close>.\<close>

fun message_in_category :: "bool \<Rightarrow> hwi_error \<Rightarrow> string option" where
  "message_in_category invalid_input (InvalidInput msg) = (if invalid_input then Some msg else None)"
| "message_in_category invalid_input (Device msg) = (if invalid_input then None else Some msg)"
| "message_in_category invalid_input _ = None"

definition leak_test :: "core_error \<Rightarrow> bool" where
  "leak_test source =
     (let invalid_input = (case source of CInvalidInput _ \<Rightarrow> True | _ \<Rightarrow> False);
          rpc = (case source of CRpc _ _ \<Rightarrow> True | _ \<Rightarrow> False);
          error = map_error source KColdcard
      in case message_in_category invalid_input error of
           None \<Rightarrow> False
         | Some msg \<Rightarrow> \<not> str_contains canary msg \<and> \<not> str_contains canary (hwi_error_display error)
             \<and> (rpc \<longrightarrow> str_contains ''-32602'' msg))"

definition errors_never_leak_untrusted_strings :: "(string \<Rightarrow> string) \<Rightarrow> bool" where
  "errors_never_leak_untrusted_strings quote \<longleftrightarrow>
     list_all leak_test
       [CDevice canary, CSerialization canary, CInvalidInput canary,
        CUnsupportedDisplayAddress canary, CRpc (-32602) (Some canary),
        CUnexpectedResult (bytes_of canary) canary]
     \<and> (let error = map_error (CDeviceAlreadyUnlocked canary) KLedger
        in error = DeviceAlreadyUnlocked \<and> \<not> str_contains canary (hwi_error_display error)
           \<and> \<not> str_contains canary (hwi_error_debug quote error))"

definition bad_input_is_rejected_before_the_device :: "crates \<Rightarrow> bool" where
  "bad_input_is_rejected_before_the_device C \<longleftrightarrow>
     is_err is_invalid_input (plan C (GetXpub ''not a path'' False) KLedger)
     \<and> is_err is_invalid_input (plan C (SignPsbt ''!!!'' None) KLedger)"

text \<open>\<open>bc::Info::default()\<close>\<close>

definition core_info_default :: core_info where
  "core_info_default = \<lparr>ci_version = [], ci_firmware = None, ci_initialized = None,
     ci_networks = [], ci_label = None, ci_on_device_passphrase_entry = None,
     ci_needs_pin_sent = None, ci_needs_passphrase_sent = None\<rparr>"

definition info_preserves_model_networks_and_optional_capabilities :: "crates \<Rightarrow> bool" where
  "info_preserves_model_networks_and_optional_capabilities C \<longleftrightarrow>
     (case hwi_response_from C (RespInfo \<lparr>ci_version = ''1.2.3'', ci_firmware = Some ''T'',
          ci_initialized = Some False, ci_networks = [CoreBitcoin, CoreTestnet],
          ci_label = Some ''wallet'', ci_on_device_passphrase_entry = Some True,
          ci_needs_pin_sent = Some True, ci_needs_passphrase_sent = Some False\<rparr>) of
        HwiInfo i \<Rightarrow> info_version i = ''1.2.3'' \<and> info_firmware i = Some ''T''
          \<and> info_initialized i = Some False \<and> info_networks i = [Bitcoin, Testnet]
          \<and> info_label i = Some ''wallet'' \<and> info_on_device_passphrase_entry i = Some True
          \<and> info_needs_pin_sent i = Some True \<and> info_needs_passphrase_sent i = Some False
      | _ \<Rightarrow> False)
     \<and> (case hwi_response_from C (RespInfo core_info_default) of
        HwiInfo i \<Rightarrow> info_networks i = [] \<and> info_firmware i = None \<and> info_initialized i = None
          \<and> info_label i = None \<and> info_on_device_passphrase_entry i = None
          \<and> info_needs_pin_sent i = None \<and> info_needs_passphrase_sent i = None
      | _ \<Rightarrow> False)"

text \<open>The two bytes of the letter e with an acute accent in UTF-8.\<close>

definition e_acute :: string where
  "e_acute = [char_of (195 :: nat), char_of (169 :: nat)]"

definition name_ok :: "string \<Rightarrow> device_kind \<Rightarrow> bool \<Rightarrow> bool" where
  "name_ok name kind registration = is_ok (validate_policy_name name kind registration)"

definition policy_names_enforce_family_boundaries_and_default_name_semantics :: bool where
  "policy_names_enforce_family_boundaries_and_default_name_semantics \<longleftrightarrow>
     name_ok [] KLedger False \<and> \<not> name_ok [] KLedger True
     \<and> name_ok (replicate 64 CHR ''a'') KLedger True
     \<and> \<not> name_ok (replicate 65 CHR ''a'') KLedger True
     \<and> name_ok (replicate 30 CHR ''a'') KBitBox True
     \<and> \<not> name_ok (replicate 31 CHR ''a'') KBitBox True
     \<and> \<not> name_ok [] KBitBox False
     \<and> list_all (\<lambda>kind.
          list_all (\<lambda>name. \<not> name_ok name kind True \<and> \<not> name_ok name kind False)
            ['' leading'', ''trailing '', ''caf'' @ e_acute, ''bad'' @ [char_of (10 :: nat)] @ ''name'']
          \<and> name_ok ''valid middle space'' kind True) [KLedger, KBitBox]
     \<and> \<not> name_ok ''x'' KColdcard True \<and> \<not> name_ok (replicate 21 CHR ''x'') KColdcard False"

lemma refusal_mapping_passes: refusal_mapping_uses_only_typed_errors
  by (simp add: refusal_mapping_uses_only_typed_errors_def all_kinds_def)

lemma errors_never_leak_passes: "errors_never_leak_untrusted_strings quote"
  by (simp add: errors_never_leak_untrusted_strings_def leak_test_def canary_def Let_def
      str_starts_with_def show_int_def show_nat.simps digit_char_def char_of_eq_iff)

lemma bad_input_passes:
  "path_from_str C ''not a path'' = None \<Longrightarrow> b64_decode C ''!!!'' = None \<Longrightarrow>
     bad_input_is_rejected_before_the_device C"
  by (simp add: bad_input_is_rejected_before_the_device_def parse_path_def plan_sign_psbt_def
      decode_psbt_def str_trim_def Let_def utf8_width_def char_is_whitespace_def)

lemma info_passes: "info_preserves_model_networks_and_optional_capabilities C"
  by (simp add: info_preserves_model_networks_and_optional_capabilities_def core_info_default_def
      info_from_def)

lemma first_of_replicate:
  "(case replicate n a of [] \<Rightarrow> False | b # _ \<Rightarrow> b = c) \<longleftrightarrow> 0 < n \<and> a = c"
  by (cases n) auto

lemma policy_names_pass: policy_names_enforce_family_boundaries_and_default_name_semantics
  by (simp add: policy_names_enforce_family_boundaries_and_default_name_semantics_def name_ok_def
      validate_policy_name_def require_def printable_name_def printable_byte_def byte_in_def
      starts_with_char_def ends_with_char_def first_of_replicate list_all_iff e_acute_def)

section \<open>state.rs\<close>

text \<open>
  The core normalizes a passphrase (NFKD). What the test takes from it: letters stay, an accented
  e becomes the letter and a combining accent, a ligature its three letters.
\<close>

definition combining_acute :: string where
  "combining_acute = [char_of (204 :: nat), char_of (129 :: nat)]"

definition ffi_ligature :: string where
  "ffi_ligature = [char_of (239 :: nat), char_of (172 :: nat), char_of (131 :: nat)]"

definition str_repeat :: "nat \<Rightarrow> string \<Rightarrow> string" where
  "str_repeat n s = concat (replicate n s)"

definition nfkd_facts :: "(string \<Rightarrow> string) \<Rightarrow> bool" where
  "nfkd_facts nfkd \<longleftrightarrow> (\<forall>n. nfkd (str_repeat n ''a'') = str_repeat n ''a'')
     \<and> (\<forall>n. nfkd (str_repeat n e_acute) = str_repeat n (''e'' @ combining_acute))
     \<and> (\<forall>n. nfkd (str_repeat n ffi_ligature) = str_repeat n ''ffi'')
     \<and> nfkd (''caf'' @ e_acute) = ''cafe'' @ combining_acute"

definition new_passphrase :: "(string \<Rightarrow> string) \<Rightarrow> string \<Rightarrow> hwi_error + passphrase_handle" where
  "new_passphrase nfkd text = passphrase_new (\<lambda>s. HostPassphrase (nfkd s))
     (\<lambda>p. case p of HostPassphrase s \<Rightarrow> length s) text"

definition passphrases_are_normalized_bounded_and_independently_owned ::
    "(string \<Rightarrow> string) \<Rightarrow> bool" where
  "passphrases_are_normalized_bounded_and_independently_owned nfkd \<longleftrightarrow>
     list_all (\<lambda>text. is_ok (new_passphrase nfkd text)) [str_repeat 50 ''a'', str_repeat 16 e_acute]
     \<and> list_all (\<lambda>text. is_err is_invalid_input (new_passphrase nfkd text))
         [str_repeat 51 ''a'', str_repeat 17 e_acute, str_repeat 17 ffi_ligature]
     \<and> on_ok (\<lambda>handle. is_ok (passphrase_validate handle)
         \<and> on_ok (\<lambda>first. on_ok (\<lambda>second. first = HostPassphrase (''cafe'' @ combining_acute)
             \<and> (let cleared = passphrase_clear (passphrase_clear handle)
                in is_err is_bad_state (passphrase_validate cleared)
                   \<and> is_err is_bad_state (clone_passphrase cleared))
             \<and> first = second) (clone_passphrase handle)) (clone_passphrase handle))
         (new_passphrase nfkd (''caf'' @ e_acute))"

definition noise_config_round_trips :: "'n noise_crate \<Rightarrow> bool" where
  "noise_config_round_trips N =
     (let config = \<lparr>nc_privkey = Some (replicate 32 7),
            nc_device_pubkeys = [replicate 32 1, replicate 32 2]\<rparr>
      in on_ok (\<lambda>handle. snd (noise_export N handle) = Inr config) (noise_handle_new N (Some config)))"

definition malformed_noise_config_is_rejected :: "'n noise_crate \<Rightarrow> bool" where
  "malformed_noise_config_is_rejected N \<longleftrightarrow>
     is_err is_invalid_input (noise_handle_new N
       (Some \<lparr>nc_privkey = Some (replicate 31 7), nc_device_pubkeys = []\<rparr>))
     \<and> is_err is_invalid_input (noise_handle_new N
       (Some \<lparr>nc_privkey = None, nc_device_pubkeys = [replicate 33 1]\<rparr>))"

definition pairing_text :: string where
  "pairing_text = ''AAAAA BBBBB'' @ [char_of (10 :: nat)] @ ''CCCCC DDDDD''"

definition pairing_code_slot_takes_once :: "'n noise_crate \<Rightarrow> bool" where
  "pairing_code_slot_takes_once N = on_ok (\<lambda>handle.
     (case take_pairing_code handle of (handle, none) \<Rightarrow>
     (let handle = handle\<lparr>nh_pairing_code :=
            pairing_hook pairing_text (nh_pairing_code handle)\<rparr> in
     (case take_pairing_code handle of (handle, code) \<Rightarrow>
     (case take_pairing_code handle of (handle, again) \<Rightarrow>
        none = None \<and> code = Some pairing_text \<and> again = None)))))
     (noise_handle_new N None)"

definition a_lease_excludes_every_other_accessor :: "'n noise_crate \<Rightarrow> bool" where
  "a_lease_excludes_every_other_accessor N = on_ok (\<lambda>handle.
     (case acquire (nh_state handle) of
        None \<Rightarrow> False
      | Some leased \<Rightarrow>
          (let handle = handle\<lparr>nh_state := leased\<rparr> in
             acquire (nh_state handle) = None
             \<and> is_err is_bad_state (snd (noise_export N handle))
             \<and> snd (take_pairing_code handle) = None
             \<and> is_ok (snd (noise_export N (handle\<lparr>nh_state := release (nh_state handle)\<rparr>))))))
     (noise_handle_new N None)"

lemma length_str_repeat [simp]: "length (str_repeat n s) = n * length s"
  by (simp add: str_repeat_def length_concat sum_list_replicate)

lemma passphrases_pass:
  assumes "nfkd_facts nfkd"
  shows "passphrases_are_normalized_bounded_and_independently_owned nfkd"
  using assms
  by (simp add: passphrases_are_normalized_bounded_and_independently_owned_def nfkd_facts_def
      new_passphrase_def passphrase_new_def passphrase_validate_def clone_passphrase_def
      passphrase_clear_def lock_def combining_acute_def require_def)

lemma noise_round_trip_passes: "noise_crate_ok N \<Longrightarrow> noise_config_round_trips N"
  by (simp add: noise_config_round_trips_def noise_crate_ok_def noise_handle_new_def
      noise_data_try_from_def noise_export_def with_leased_def acquire_def release_def new_leased_def
      noise_config_from_def replicate_eq_replicate Let_def)

lemma malformed_noise_passes: "malformed_noise_config_is_rejected N"
  by (simp add: malformed_noise_config_is_rejected_def noise_handle_new_def noise_data_try_from_def
      Let_def)

lemma handle_tests_pass: "pairing_code_slot_takes_once N" "a_lease_excludes_every_other_accessor N"
  by (simp_all add: pairing_code_slot_takes_once_def a_lease_excludes_every_other_accessor_def
      noise_handle_new_def take_pairing_code_def pairing_hook_def lock_def noise_export_def
      with_leased_def acquire_def release_def new_leased_def Let_def)

section \<open>helpers.rs\<close>

definition xpub_text :: string where
  "xpub_text = ''tpubDCbK3Ysvk8HjcF6mPyrgMu3KgLiaaP19RjKpNezd8GrbAbNg6v5BtWLaCt8FNm6QkLseopKLf5MNYQFtochDTKHdfgG6iqJ8cqnLNAwtXuP''"

text \<open>\<open>84'/1'/0'\<close> and \<open>84'/0'/0'\<close>\<close>

definition account_path :: "string \<Rightarrow> string" where
  "account_path coin = ''84'' @ [CHR 0x27] @ ''/'' @ coin @ [CHR 0x27] @ ''/0'' @ [CHR 0x27]"

definition test_descriptor :: "crates \<Rightarrow> string \<Rightarrow> network \<Rightarrow> hwi_error + string" where
  "test_descriptor C origin network =
     build_singlesig_descriptor C xpub_text ''f5acc2fd'' origin NativeSegwit network"

definition descriptor_round_trips_and_derives_both_branches :: "crates \<Rightarrow> bool" where
  "descriptor_round_trips_and_derives_both_branches C = on_ok (\<lambda>descriptor.
     str_starts_with (''wpkh([f5acc2fd/'' @ account_path ''1'' @ '']'') descriptor
     \<and> str_contains ''/<0;1>/*'' descriptor
     \<and> on_ok (\<lambda>receive. on_ok (\<lambda>change.
          length receive = 2 \<and> ae_index (receive ! 0) = 0
          \<and> str_starts_with ''tb1q'' (ae_address (receive ! 0))
          \<and> ae_address (receive ! 0) \<noteq> ae_address (change ! 0))
        (derive_addresses C descriptor Testnet True 0 2))
        (derive_addresses C descriptor Testnet False 0 2))
     (test_descriptor C (''m/'' @ account_path ''1'') Testnet)"

definition descriptor_rejects_network_mismatch_and_derive_rejects_huge_counts :: "crates \<Rightarrow> bool" where
  "descriptor_rejects_network_mismatch_and_derive_rejects_huge_counts C \<longleftrightarrow>
     is_err is_invalid_input (test_descriptor C (''m/'' @ account_path ''0'') Bitcoin)
     \<and> on_ok (\<lambda>descriptor.
          is_err is_invalid_input (derive_addresses C descriptor Testnet False 0 (MAX_DERIVE_COUNT + 1)))
        (test_descriptor C (''m/'' @ account_path ''1'') Testnet)"

definition invalid_origin :: string where
  "invalid_origin = ''4242424242''"

definition hides :: "string \<Rightarrow> hwi_error + 'r \<Rightarrow> bool" where
  "hides input r = is_err (\<lambda>error. case error of
       InvalidInput msg \<Rightarrow> \<not> str_contains input msg \<and> \<not> str_contains input (hwi_error_display error)
     | _ \<Rightarrow> False) r"

definition descriptor_parse_errors_do_not_leak_input :: "crates \<Rightarrow> bool" where
  "descriptor_parse_errors_do_not_leak_input C \<longleftrightarrow>
     hides canary (derive_addresses C (''wpkh('' @ xpub_text @ ''/'' @ canary @ ''/*)'') Testnet False 0 1)
     \<and> hides invalid_origin (test_descriptor C (''m/'' @ invalid_origin) Testnet)"

text \<open>
  \<open>test_psbt()\<close>: \<open>script_of\<close> is \<open>Address::from_str(..).assume_checked().script_pubkey()\<close>, \<open>from_unsigned\<close>
  is \<open>Psbt::from_unsigned_tx\<close>, and the opaque rests hold the fields the bindings never read.
\<close>

definition one_input_psbt :: "(transaction \<Rightarrow> psbt) \<Rightarrow> script \<Rightarrow> bytes \<Rightarrow> bytes \<Rightarrow> psbt" where
  "one_input_psbt from_unsigned script in_rest rest =
     (let tx = \<lparr>tx_input = [\<lparr>txin_previous_output = \<lparr>op_txid = replicate 32 0, op_vout = 0\<rparr>,
                 txin_rest = in_rest\<rparr>],
               tx_output = [\<lparr>txout_value = 9000, txout_script_pubkey = script\<rparr>], tx_rest = rest\<rparr>;
          psbt = from_unsigned tx
      in psbt\<lparr>ps_inputs := (ps_inputs psbt)[0 := (ps_inputs psbt ! 0)
          \<lparr>pi_witness_utxo := Some \<lparr>txout_value = 10000, txout_script_pubkey = script\<rparr>\<rparr>]\<rparr>)"

definition test_psbt ::
    "crates \<Rightarrow> (string \<Rightarrow> script) \<Rightarrow> (transaction \<Rightarrow> psbt) \<Rightarrow> bytes \<Rightarrow> bytes \<Rightarrow> hwi_error + string" where
  "test_psbt C script_of from_unsigned in_rest rest =
     and_then (test_descriptor C (''m/'' @ account_path ''1'') Testnet) (\<lambda>descriptor.
     and_then (derive_addresses C descriptor Testnet False 0 1) (\<lambda>entries.
     let script = script_of (ae_address (entries ! 0))
     in Inr (encode_psbt C (one_input_psbt from_unsigned script in_rest rest))))"

definition psbt_summary_reports_amounts_and_fee ::
    "crates \<Rightarrow> (string \<Rightarrow> script) \<Rightarrow> (transaction \<Rightarrow> psbt) \<Rightarrow> bytes \<Rightarrow> bytes \<Rightarrow> bool" where
  "psbt_summary_reports_amounts_and_fee C script_of from_unsigned in_rest rest = on_ok (\<lambda>psbt.
     on_ok (\<lambda>summary. length (sum_inputs summary) = 1
       \<and> is_amount_sat (sum_inputs summary ! 0) = Some 10000
       \<and> length (sum_outputs summary) = 1
       \<and> os_amount_sat (sum_outputs summary ! 0) = 9000
       \<and> sum_fee_sat summary = Some 1000
       \<and> os_address (sum_outputs summary ! 0) \<noteq> None) (psbt_summary C psbt Testnet))
     (test_psbt C script_of from_unsigned in_rest rest)"

section \<open>What the tests take from the crates\<close>

text \<open>
  The facts about texts, descriptors and addresses that the tests of \<open>helpers.rs\<close> rest on: the key
  and fingerprint parse, the account's descriptor parses with and without its checksum, splits in
  two branches and derives distinct segwit addresses, and the two malformed texts do not parse.
\<close>

definition account_text :: string where
  "account_text = ''wpkh([f5acc2fd/'' @ account_path ''1'' @ '']'' @ xpub_text @ ''/<0;1>/*)''"

definition account_parses :: "crates \<Rightarrow> descriptor \<Rightarrow> string \<Rightarrow> bool" where
  "account_parses C d checksum \<longleftrightarrow>
     (\<exists>x f. xpub_from_str C xpub_text = Some x \<and> xpub_to_string C x = xpub_text
        \<and> xpub_network x = Test \<and> fingerprint_from_str C ''f5acc2fd'' = Some f
        \<and> fingerprint_to_string C f = ''f5acc2fd'')
     \<and> network_kind_of C CoreTestnet = Test \<and> network_kind_of C CoreBitcoin = Main
     \<and> desc_from_str C account_text = Some d \<and> desc_to_string C d = account_text @ ''#'' @ checksum
     \<and> no_space_ascii checksum \<and> desc_from_str C (account_text @ ''#'' @ checksum) = Some d
     \<and> desc_from_str C (''wpkh('' @ xpub_text @ ''/'' @ canary @ ''/*)'') = None
     \<and> desc_from_str C (''wpkh([f5acc2fd/'' @ invalid_origin @ '']'' @ xpub_text @ ''/<0;1>/*)'') = None"

definition account_derives ::
    "crates \<Rightarrow> descriptor \<Rightarrow> (bool \<Rightarrow> u32 \<Rightarrow> string) \<Rightarrow> bool" where
  "account_derives C d address \<longleftrightarrow>
     (\<exists>branch. desc_into_single C d = Inr [branch False, branch True]
        \<and> (\<forall>change. \<forall>i \<in> {0, 1}. \<exists>definite. desc_derive_at_index C (branch change) i = Inr definite
             \<and> definite_address C definite CoreTestnet = Inr (address change i)))
     \<and> str_starts_with ''tb1q'' (address False 0) \<and> address True 0 \<noteq> address False 0"

definition psbt_facts :: "crates \<Rightarrow> (transaction \<Rightarrow> psbt) \<Rightarrow> script \<Rightarrow> bytes \<Rightarrow> bytes \<Rightarrow> bool" where
  "psbt_facts C from_unsigned script in_rest rest \<longleftrightarrow> amounts_ok C \<and> base64_ok C
     \<and> (\<forall>tx. ps_unsigned_tx (from_unsigned tx) = tx
          \<and> ps_inputs (from_unsigned tx) = map (\<lambda>_. default_psbt_input) (tx_input tx))
     \<and> (let p = one_input_psbt from_unsigned script in_rest rest
        in psbt_deserialize C (psbt_serialize C p) = Some p)
     \<and> address_from_script C script CoreTestnet \<noteq> None"

lemma xpub_text_graphic: "no_space_ascii xpub_text"
  by (simp add: xpub_text_def no_space_ascii_def byte_in_def)

lemma account_texts_graphic:
  "no_space_ascii (account_path c) \<longleftrightarrow> no_space_ascii c" "no_space_ascii account_text"
  "no_space_ascii (''wpkh('' @ xpub_text @ ''/'' @ canary @ ''/*)'')"
  using xpub_text_graphic
  by (simp_all add: no_space_ascii_def byte_in_def account_path_def account_text_def canary_def)

lemma trim_origin_account: "trim_origin (''m/'' @ account_path ''1'') = account_path ''1''"
proof -
  have "no_space_ascii (account_path ''1'')"
    by (simp add: account_path_def no_space_ascii_def byte_in_def)
  then have "trim_origin (''m/'' @ account_path ''1'') = trim_origin (account_path ''1'')"
    by (rule trim_origin_prefix) (simp add: account_path_def starts_with_char_def)
  also have "\<dots> = account_path ''1''"
    using str_trim_graphic [OF \<open>no_space_ascii (account_path ''1'')\<close>]
    by (simp add: trim_origin_def account_path_def trim_start_char_def trim_end_char_def)
  finally show ?thesis .
qed

lemma trim_origin_invalid: "trim_origin (''m/'' @ invalid_origin) = invalid_origin"
proof -
  have g: "no_space_ascii invalid_origin" by (simp add: invalid_origin_def no_space_ascii_def byte_in_def)
  then have "trim_origin (''m/'' @ invalid_origin) = trim_origin invalid_origin"
    by (rule trim_origin_prefix) (simp add: invalid_origin_def starts_with_char_def)
  also have "\<dots> = invalid_origin"
    using str_trim_graphic [OF g]
    by (simp add: trim_origin_def invalid_origin_def trim_start_char_def trim_end_char_def)
  finally show ?thesis .
qed

lemma fingerprint_graphic: "no_space_ascii ''f5acc2fd''"
  by (simp add: no_space_ascii_def byte_in_def)

lemmas test_trims =
  str_trim_graphic [OF xpub_text_graphic] str_trim_graphic [OF fingerprint_graphic]
  trim_origin_account trim_origin_invalid

section \<open>The tests of helpers.rs on the model\<close>

lemma test_descriptor_built:
  assumes "account_parses C d checksum"
  shows "test_descriptor C (''m/'' @ account_path ''1'') Testnet = Inr (account_text @ ''#'' @ checksum)"
proof -
  have "account_path ''1'' \<noteq> []" by (simp add: account_path_def)
  with assms show ?thesis
    unfolding test_descriptor_def build_singlesig_iff test_trims
    by (auto simp: account_parses_def account_key_text_def account_text_def)
qed

lemma derives:
  assumes "account_parses C d checksum" and "account_derives C d address" and "count = 1 \<or> count = 2"
  shows "derive_addresses C (account_text @ ''#'' @ checksum) Testnet change 0 count
    = Inr (map (\<lambda>i. \<lparr>ae_index = i, ae_address = address change i\<rparr>) (u32_range 0 count))"
proof -
  have "no_space_ascii (account_text @ ''#'' @ checksum)"
    using assms(1) account_texts_graphic(2)
    by (simp add: account_parses_def no_space_ascii_def byte_in_def)
  note trim = str_trim_graphic [OF this]
  from assms(2) obtain branch where branch: "desc_into_single C d = Inr [branch False, branch True]"
    and ex: "\<forall>change. \<forall>i \<in> {0, 1}. \<exists>definite. desc_derive_at_index C (branch change) i = Inr definite
       \<and> definite_address C definite CoreTestnet = Inr (address change i)"
    unfolding account_derives_def by blast
  have each: "derive_entry C (branch change) CoreTestnet i
      = Inr \<lparr>ae_index = i, ae_address = address change i\<rparr>" if "i \<in> {0, 1}" for change i
  proof -
    from ex that obtain definite where "desc_derive_at_index C (branch change) i = Inr definite"
      "definite_address C definite CoreTestnet = Inr (address change i)" by blast
    then show ?thesis by (simp add: derive_entry_def)
  qed
  have range: "u32_range 0 1 = [0]" "u32_range 0 2 = [0, 1]"
    by (simp_all add: u32_range_def upt_rec)
  have "derivation_branch C (account_text @ ''#'' @ checksum) change = Some (branch change)"
    using assms(1) branch unfolding derivation_branch_def trim
    by (cases change) (simp_all add: account_parses_def list_get_def)
  then show ?thesis
    using assms(3) each by (auto simp: derive_addresses_ok range)
qed

lemma round_trip_passes:
  assumes "account_parses C d checksum" and "account_derives C d address"
  shows "descriptor_round_trips_and_derives_both_branches C"
proof -
  have "str_contains ''/<0;1>/*'' ((''wpkh([f5acc2fd/'' @ account_path ''1'' @ '']'' @ xpub_text)
      @ ''/<0;1>/*'' @ ('')#'' @ checksum))"
    by (rule str_contains_mid)
  then have "str_contains ''/<0;1>/*'' (account_text @ ''#'' @ checksum)"
    by (simp only: account_text_def append_assoc append_Cons append_Nil)
  moreover have "str_starts_with (''wpkh([f5acc2fd/'' @ account_path ''1'' @ '']'') (account_text @ ''#'' @ checksum)"
    by (simp add: account_text_def str_starts_with_def)
  moreover have "derive_addresses C (account_text @ ''#'' @ checksum) Testnet change 0 2
      = Inr [\<lparr>ae_index = 0, ae_address = address change 0\<rparr>,
          \<lparr>ae_index = 1, ae_address = address change 1\<rparr>]" for change
    using derives [OF assms, of 2 change] by (simp add: u32_range_def upt_rec)
  moreover have "address False 0 \<noteq> address True 0"
    using assms(2) by (auto simp: account_derives_def)
  ultimately show ?thesis
    using assms(2)
    unfolding descriptor_round_trips_and_derives_both_branches_def
      test_descriptor_built [OF assms(1)] assertion_simps
    by (simp only: account_derives_def assertion_simps simp_thms) simp
qed

lemma mismatch_passes:
  assumes "account_parses C d checksum"
  shows "descriptor_rejects_network_mismatch_and_derive_rejects_huge_counts C"
proof -
  have "is_err is_invalid_input (test_descriptor C (''m/'' @ account_path ''0'') Bitcoin)"
    using assms unfolding test_descriptor_def build_singlesig_descriptor_def test_trims
    by (auto simp: account_parses_def require_def)
  moreover have "is_err is_invalid_input (derive_addresses C dtext Testnet False 0 (MAX_DERIVE_COUNT + 1))"
    for dtext
    by (simp add: derive_addresses_def MAX_DERIVE_COUNT_def require_def)
  ultimately show ?thesis
    unfolding descriptor_rejects_network_mismatch_and_derive_rejects_huge_counts_def
      test_descriptor_built [OF assms] assertion_simps by blast
qed

lemma hides_invalid: "\<not> str_contains input msg \<Longrightarrow> \<not> str_contains input (''invalid input: '' @ msg)
    \<Longrightarrow> hides input (Inl (invalid msg))"
  by (simp add: hides_def invalid_def)

lemma parse_errors_pass:
  assumes "account_parses C d checksum"
  shows "descriptor_parse_errors_do_not_leak_input C"
proof -
  have "test_descriptor C (''m/'' @ invalid_origin) Testnet = Inl (invalid ''invalid descriptor'')"
    using assms unfolding test_descriptor_def build_singlesig_descriptor_def test_trims
    by (auto simp: account_parses_def require_def account_key_text_def invalid_origin_def)
  moreover have "derive_addresses C (''wpkh('' @ xpub_text @ ''/'' @ canary @ ''/*)'') Testnet False 0 1
      = Inl (invalid ''invalid descriptor'')"
    using assms unfolding derive_addresses_def str_trim_graphic [OF account_texts_graphic(3)]
    by (simp add: account_parses_def require_def u32_checked_add_def MAX_DERIVE_COUNT_def)
  moreover have "hides invalid_origin (Inl (invalid ''invalid descriptor'') :: hwi_error + string)"
    by (rule hides_invalid) (simp_all add: invalid_origin_def str_starts_with_def)
  moreover have "hides canary (Inl (invalid ''invalid descriptor'') :: hwi_error + address_entry list)"
    by (rule hides_invalid) (simp_all add: canary_def str_starts_with_def)
  ultimately show ?thesis unfolding descriptor_parse_errors_do_not_leak_input_def by simp
qed

lemma summary_passes:
  assumes "account_parses C d checksum" and "account_derives C d address"
    and facts: "psbt_facts C from_unsigned (script_of (address False 0)) in_rest rest"
  shows "psbt_summary_reports_amounts_and_fee C script_of from_unsigned in_rest rest"
proof -
  let ?p = "one_input_psbt from_unsigned (script_of (address False 0)) in_rest rest"
  have "derive_addresses C (account_text @ ''#'' @ checksum) Testnet False 0 1
      = Inr [\<lparr>ae_index = 0, ae_address = address False 0\<rparr>]"
    using derives [OF assms(1, 2), of 1 False] by (simp add: u32_range_def upt_rec)
  then have built: "test_psbt C script_of from_unsigned in_rest rest = Inr (encode_psbt C ?p)"
    unfolding test_psbt_def test_descriptor_built [OF assms(1)] by (simp add: Let_def)
  have "decode_psbt C (encode_psbt C ?p) = Inr ?p"
    using facts by (intro psbt_encode_decode) (simp_all add: psbt_facts_def Let_def)
  moreover obtain shown where "address_from_script C (script_of (address False 0)) CoreTestnet = Some shown"
    using facts by (auto simp: psbt_facts_def)
  moreover have "amount_checked_add C 0 10000 = Some 10000" "amount_checked_add C 0 9000 = Some 9000"
    "amount_checked_sub C 10000 9000 = Some 1000"
    using facts by (simp_all add: psbt_facts_def amounts_ok_def)
  ultimately show ?thesis
    using facts
    by (simp add: psbt_summary_reports_amounts_and_fee_def built psbt_summary_def)
      (simp add: psbt_facts_def one_input_psbt_def utxo_at_def list_get_def)
qed

section \<open>All of them\<close>

text \<open>
  The model passes the fourteen inline tests of \<open>types.rs\<close>, \<open>state.rs\<close> and \<open>helpers.rs\<close>, as
  they are translated above, given what the tests take from third-party code. This checks the
  definitions, not the program.
\<close>

lemma unit_tests_pass:
  assumes "path_from_str C ''not a path'' = None" and "b64_decode C ''!!!'' = None"
    and "nfkd_facts nfkd" and "noise_crate_ok N"
    and "account_parses C d checksum" and "account_derives C d address"
    and "psbt_facts C from_unsigned (script_of (address False 0)) in_rest rest"
  shows "refusal_mapping_uses_only_typed_errors
    \<and> errors_never_leak_untrusted_strings quote
    \<and> bad_input_is_rejected_before_the_device C
    \<and> info_preserves_model_networks_and_optional_capabilities C
    \<and> policy_names_enforce_family_boundaries_and_default_name_semantics
    \<and> passphrases_are_normalized_bounded_and_independently_owned nfkd
    \<and> noise_config_round_trips N \<and> malformed_noise_config_is_rejected N
    \<and> pairing_code_slot_takes_once N \<and> a_lease_excludes_every_other_accessor N
    \<and> descriptor_round_trips_and_derives_both_branches C
    \<and> descriptor_rejects_network_mismatch_and_derive_rejects_huge_counts C
    \<and> descriptor_parse_errors_do_not_leak_input C
    \<and> psbt_summary_reports_amounts_and_fee C script_of from_unsigned in_rest rest"
  by (intro conjI refusal_mapping_passes errors_never_leak_passes bad_input_passes info_passes
      policy_names_pass passphrases_pass noise_round_trip_passes malformed_noise_passes
      handle_tests_pass round_trip_passes [OF assms(5, 6)] mismatch_passes [OF assms(5)]
      parse_errors_pass [OF assms(5)] summary_passes [where script_of = script_of and address = address, OF assms(5-7)] assms(1-4))

subsection \<open>A crate the tests pass on\<close>

text \<open>Texts are read as the tests need them; the normalization knows the two composed letters.\<close>

definition sample_nfkd_char :: "string \<Rightarrow> string" where
  "sample_nfkd_char ch = (if ch = e_acute then ''e'' @ combining_acute
     else if ch = ffi_ligature then ''ffi'' else ch)"

definition sample_nfkd :: "string \<Rightarrow> string" where
  "sample_nfkd s = concat (map sample_nfkd_char (utf8_split s))"

definition test_unsigned :: "transaction \<Rightarrow> psbt" where
  "test_unsigned tx = \<lparr>ps_unsigned_tx = tx, ps_inputs = map (\<lambda>_. default_psbt_input) (tx_input tx),
     ps_rest = []\<rparr>"

definition test_address :: "bool \<Rightarrow> u32 \<Rightarrow> string" where
  "test_address change i = (if change then ''tb1qchange'' else ''tb1qreceive'')"

definition test_crates :: crates where
  "test_crates = sample_crates\<lparr>
     xpub_from_str := (\<lambda>s. if s = xpub_text then Some sample_xpub else None),
     xpub_to_string := (\<lambda>x. xpub_text),
     desc_from_str := (\<lambda>s. if take (length account_text) s = account_text
       then Some (Descriptor ''account'') else None),
     desc_to_string := (\<lambda>d. account_text @ ''#sum''),
     definite_address := (\<lambda>d n. Inr (case d of DefiniteDescriptor s \<Rightarrow>
       if s = ''change'' then ''tb1qchange'' else ''tb1qreceive'')),
     psbt_deserialize := (\<lambda>bs. Some (one_input_psbt test_unsigned [0] [] []))\<rparr>"

lemma sample_nfkd_ok: "nfkd_facts sample_nfkd"
proof -
  have "sample_nfkd (str_repeat n ''a'') = str_repeat n ''a''" for n
    by (induction n) (simp_all add: str_repeat_def sample_nfkd_def sample_nfkd_char_def utf8_width_def
        e_acute_def ffi_ligature_def)
  moreover have "sample_nfkd (str_repeat n e_acute) = str_repeat n (''e'' @ combining_acute)" for n
    by (induction n) (simp_all add: str_repeat_def sample_nfkd_def sample_nfkd_char_def utf8_width_def
        e_acute_def ffi_ligature_def)
  moreover have "sample_nfkd (str_repeat n ffi_ligature) = str_repeat n ''ffi''" for n
    by (induction n) (simp_all add: str_repeat_def sample_nfkd_def sample_nfkd_char_def utf8_width_def
        e_acute_def ffi_ligature_def Let_def)
  moreover have "sample_nfkd (''caf'' @ e_acute) = ''cafe'' @ combining_acute"
    by (simp add: sample_nfkd_def sample_nfkd_char_def utf8_width_def e_acute_def ffi_ligature_def)
  ultimately show ?thesis by (simp add: nfkd_facts_def)
qed

lemma test_account_parses: "account_parses test_crates (Descriptor ''account'') ''sum''"
proof -
  have "take (length account_text) (''wpkh('' @ rest) \<noteq> account_text" if "hd rest \<noteq> CHR ''[''" for rest
    using that by (cases rest) (simp_all add: account_text_def)
  moreover have "hd (xpub_text @ r) \<noteq> CHR ''[''" for r by (simp add: xpub_text_def)
  ultimately have "take (length account_text) (''wpkh('' @ xpub_text @ ''/'' @ canary @ ''/*)'') \<noteq> account_text"
    by blast
  moreover have "take (length account_text)
      (''wpkh([f5acc2fd/'' @ invalid_origin @ '']'' @ xpub_text @ ''/<0;1>/*)'') \<noteq> account_text"
    by (simp add: account_text_def account_path_def invalid_origin_def)
  ultimately show ?thesis
    unfolding account_parses_def
    by (simp add: test_crates_def sample_crates_def sample_xpub_def no_space_ascii_def byte_in_def)
qed

lemma test_account_derives: "account_derives test_crates (Descriptor ''account'') test_address"
  unfolding account_derives_def
  by (intro conjI exI [of _ "\<lambda>change. Descriptor (if change then ''change'' else ''receive'')"])
    (auto simp: test_crates_def sample_crates_def test_address_def str_starts_with_def)

lemma test_psbt_facts: "psbt_facts test_crates test_unsigned [0] [] []"
  using sample_amounts_ok sample_base64_ok
  by (simp add: psbt_facts_def test_crates_def amounts_ok_def base64_ok_def test_unsigned_def Let_def)
    (simp add: sample_crates_def)

lemma unit_tests_pass_witness:
  "descriptor_round_trips_and_derives_both_branches test_crates
    \<and> psbt_summary_reports_amounts_and_fee test_crates (\<lambda>_. [0]) test_unsigned [] []
    \<and> passphrases_are_normalized_bounded_and_independently_owned sample_nfkd"
proof -
  have "path_from_str test_crates ''not a path'' = None" "b64_decode test_crates ''!!!'' = None"
    by (simp_all add: test_crates_def sample_crates_def sample_path_from_str_def byte_in_def)
  from unit_tests_pass [where script_of = "\<lambda>_. [0]" and address = test_address,
      OF this sample_nfkd_ok sample_noise_ok test_account_parses test_account_derives test_psbt_facts]
  show ?thesis by blast
qed

end
