(* ===== verification/Spec2Isabelle.thy ===== *)
theory Spec2Isabelle
  imports Linearizable Redaction Plan_Types Derive_Loop Unit_Tests
begin

text \<open>
  A model of bhwi-ffi, the UniFFI bindings of BHWI's sans-I/O interpreters for Bitcoin hardware
  wallets, with the properties a host application relies on. All of the Rust crate under
  \<open>src/bhwi-ffi/src\<close> that carries logic is modelled. Paths below are relative to it.

  The program. A host creates handles (\<open>state.rs\<close>) for device state that outlives a command, and
  one \<open>Interp\<close> (\<open>interp.rs\<close>) per command. \<open>start\<close> validates the command and lowers it
  (\<open>types.rs\<close>), \<open>exchange\<close> feeds replies to the core's interpreter, \<open>end\<close> returns a typed
  response after checking it. BitBox and Coldcard interpreters borrow the state in a handle
  under a lease. \<open>helpers.rs\<close> has pure functions for descriptors, addresses and PSBT summaries.

  The theories, in the order of their imports, and what they model:
  \<^item> \<open>Prelude\<close>: the combinators of \<open>Result\<close>, mutexes with poisoning, reachability with invariants
    (locale \<open>invariant_system\<close>), and objects called in sequence (locales \<open>at_most_once\<close> and
    \<open>one_shot\<close>).
  \<^item> \<open>Rust_Std\<close>: what the code uses of \<open>str\<close> (strings are UTF-8 byte lists; \<open>trim\<close> and
    \<open>chars\<close> decode them) and of big-endian integers.
  \<^item> \<open>Ffi_Error\<close>: \<open>lib.rs\<close> (\<open>Network\<close>, \<open>AddressFormat\<close>, \<open>HwiError\<close>) and the error mapping of
    \<open>types.rs\<close>. Lemmas: no device text reaches the host; refusals come from typed errors.
  \<^item> \<open>Crates\<close>, \<open>Samples\<close>: the third-party crates as data types and a record of functions, the
    hypotheses about them, and one implementation that the witnesses use.
  \<^item> \<open>Wire\<close>: the records and enums that cross the FFI, with their conversions and encodings.
  \<^item> \<open>Policy\<close>: validation of policy names, descriptors, keys and Ledger policies; each check is
    proved equal to a declarative specification.
  \<^item> \<open>Commands\<close>: \<open>HwiCommand::plan\<close>, arm by arm, and \<open>Expect\<close>.
  \<^item> \<open>Leases\<close>: \<open>Leased<T>\<close>, the contract of a lease (locales \<open>lease_cell\<close>, \<open>lease_table\<close> and
    \<open>lease_client\<close>), and one cell under threads, where \<open>with\<close> is proved atomic.
  \<^item> \<open>Handles\<close>: the exported handles and the store of leased handles.
  \<^item> \<open>Psbt_Gate\<close>: what \<open>Session::start\<close> remembers of a request and what \<open>Interp::end\<close> checks of the
    signed result, with \<open>signing_faithful\<close> as its specification and \<open>honest_input\<close> as the devices
    it must accept. The code compares transactions by \<open>compute_wtxid\<close>, any function here, so two
    transactions it takes for equal are equal or a \<open>wtxid_collision\<close> of that very pair.
  \<^item> \<open>Session\<close>: \<open>Inner\<close>, \<open>StateLease\<close> and \<open>Session\<close>; an interpreter of the core is a record of
    functions on its own state and the cell it borrows (locale \<open>borrowing_op\<close>).
  \<^item> \<open>Interp\<close>: constructors, \<open>with_session\<close>, \<open>start\<close>, \<open>exchange\<close>, \<open>end\<close> and drop. Lemmas: what a
    failed call leaves, what \<open>end\<close> frees, the protocol over all call sequences, and what a
    result stands for.
  \<^item> \<open>Host\<close>: a host that makes, calls and drops any number of objects, with panics; the invariant
    that leases are owned once and calls are isolated, and the refinement of an abstract
    ownership discipline (\<open>own_step\<close>).
  \<^item> \<open>Traces\<close>: histories of a host, as lists of calls with their results (\<open>start\<close>, \<open>exchange\<close>, \<open>end\<close>,
    \<open>export\<close> and the leasing constructors); what \<open>end\<close> returns is tied to the last command
    started on that interpreter, and a signed PSBT to the PSBT it carried.
  \<^item> \<open>Conversation\<close>: whole conversations of a host with an interpreter, proved equal to a direct
    use of the core (\<open>dialogue\<close>) behind the checks of the code.
  \<^item> \<open>Redaction\<close>: noninterference of the error paths; cores that differ in the erased parts of
    their errors are indistinguishable, for an interpreter, a host and a frame decoder.
  \<^item> \<open>Plan_Types\<close>: a type discipline for core commands, per family, which every plan obeys.
  \<^item> \<open>Threads\<close>: the exported objects called from many threads, one access to a session mutex, a
    lease flag or a pairing-code mutex per step: no data race on a leased cell, no deadlock.
  \<^item> \<open>Locality\<close>: a call reads and writes its interpreter and the cell it leases, nothing else (locale
    \<open>local_op\<close>, which extends \<open>borrowing_op\<close>).
  \<^item> \<open>Concurrency\<close>, \<open>Linearizable\<close>: the same threads with the contents of sessions and cells, which
    may be anything inside a call; a simulation by the sequential host of \<open>Host\<close>, so that the
    calls are linearizable and the theorems on histories hold of overlapping calls. Not part of
    the simulated history is an export or a constructor that meets the flag of another such call,
    or of a drop, on the same handle (\<open>busy\<close>): it is refused, as no sequential run would.
  \<^item> \<open>Helpers\<close>, \<open>Derive_Loop\<close>: \<open>helpers.rs\<close>, and its address loop stepped on \<open>u32\<close>s with the proof
    that it returns.
  \<^item> \<open>Unit_Tests\<close>: the crate's own inline tests as bools, a check of the definitions.
  \<^item> this theory: a property that spans the helpers, planning, sessions and the result gate.

  Conventions. \<open>Result\<close> is a sum with the error on the left; an early return is \<open>require\<close> or a
  branch. A method on \<open>&self\<close> with interior state returns the new state with its result. The
  device state is a store \<open>device_state\<close> from handle addresses to cells, threaded through every
  call; \<open>Arc\<close>s are addresses, which are never reused. Integers keep their width. Loops over lists
  are structural recursion and \<open>utf8_split\<close> has a termination proof of its own, so no fuel is
  needed and these functions are total. The loop over a range of \<open>u32\<close>s, \<open>derive_loop\<close>, is a partial
  function into \<open>option\<close>, where no result would mean that it does not return.

  What is assumed. The core's interpreters, bitcoin, miniscript and base64ct are arguments
  (\<open>crates\<close>, \<open>families\<close>, \<open>noise_crate\<close>), as any functions at all. Theorems that need documented
  behaviour name it: \<open>child_numbers_ok\<close>, \<open>amounts_ok\<close>, \<open>base64_ok\<close>, \<open>sighash_ok\<close>,
  \<open>noise_crate_ok\<close>, and for the unit tests \<open>nfkd_facts\<close>, \<open>account_parses\<close>, \<open>account_derives\<close> and
  \<open>psbt_facts\<close>.

  What is not modelled: the generated UniFFI scaffolding, the raw pointers behind a lease (a
  pointer is identified with its cell), zeroization, weak memory orderings, \<open>bindgen\<close>, and the
  Kotlin host layer under \<open>src/android\<close>. A panic of the core inside \<open>start\<close>, \<open>exchange\<close> or \<open>end\<close> is
  a step of \<open>Host\<close>; a panic while a handle exports itself is not.

  What remains to be done: fairness. A call that waits for a lock gets it only if the scheduler is
  fair, and how often the core calls the pairing hook is not bounded, so there is no bound on
  the steps of one call.
\<close>

section \<open>From the confirmation screen to the signed transaction\<close>

text \<open>What a summary shows, as a statement about a transaction.\<close>

definition summary_of :: "crates \<Rightarrow> network \<Rightarrow> psbt_summary \<Rightarrow> transaction \<Rightarrow> bool" where
  "summary_of C network s tx \<longleftrightarrow>
     sum_outputs s = map (\<lambda>t. \<lparr>os_address = address_from_script C (txout_script_pubkey t)
        (network_to_core network), os_amount_sat = txout_value t\<rparr>) (tx_output tx)
     \<and> map (\<lambda>l. (is_prev_txid l, is_vout l)) (sum_inputs s)
        = map (\<lambda>i. (txid_to_string C (op_txid (txin_previous_output i)),
                    op_vout (txin_previous_output i))) (tx_input tx)"

lemma summary_lines:
  "length us = length ts \<Longrightarrow> map (\<lambda>l. (is_prev_txid l, is_vout l)) (map2 (input_line C) ts us)
     = map (\<lambda>i. (txid_to_string C (op_txid (txin_previous_output i)),
                 op_vout (txin_previous_output i))) ts"
  by (rule nth_equalityI) (simp_all add: input_line_def)

lemma psbt_summary_of:
  assumes "amounts_ok C" and "decode_psbt C text = Inr p"
  shows "\<exists>s. psbt_summary C text network = Inr s \<and> summary_of C network s (ps_unsigned_tx p)"
proof -
  let ?ins = "tx_input (ps_unsigned_tx p)"
  obtain s where s: "psbt_summary C text network = Inr s"
    "sum_inputs s = map2 (input_line C) ?ins (spent_utxos p 0 ?ins)"
    "sum_outputs s = map (\<lambda>t. \<lparr>os_address = address_from_script C (txout_script_pubkey t)
       (network_to_core network), os_amount_sat = txout_value t\<rparr>) (tx_output (ps_unsigned_tx p))"
    using psbt_summary_spec [OF assms, of network 0] unfolding Let_def by blast
  have "length (spent_utxos p 0 ?ins) = length ?ins" by (simp add: spent_utxos_def)
  then have "summary_of C network s (ps_unsigned_tx p)"
    unfolding summary_of_def s(2, 3) by (intro conjI refl summary_lines)
  with s(1) show ?thesis by blast
qed

text \<open>
  C2: what the user confirmed is what was signed. Over all histories of a host, for every signed
  PSBT that \<open>end\<close> returns, the PSBT in the last command started on that interpreter has a summary,
  and it lists exactly the outputs and the spent outpoints of the transaction in the result;
  unless that very request's transaction and the result's are a collision of \<open>compute_wtxid\<close>, which
  is what the code compares.
\<close>

theorem signed_as_summarized:
  assumes "amounts_ok C" and "sighash_ok C"
    and "host_trace C F N engine_new evs s" and "interps s i = Some p"
    and "interp_call C F EndOp p (devices s) = (p', d, Inr (Ended (HwiSignedPsbt text)))"
  shows "\<exists>j input pol shown request result. last_start evs i j (SignPsbt input pol)
    \<and> decode_psbt C input = Inr request \<and> psbt_summary C input network = Inr shown
    \<and> text = encode_psbt C result
    \<and> (summary_of C network shown (ps_unsigned_tx result)
       \<or> wtxid_collision C (ps_unsigned_tx request) (ps_unsigned_tx result))"
proof -
  from end_started [OF assms(3-5)] signed_end [OF assms(2)] obtain j input pol request result where
    j: "last_start evs i j (SignPsbt input pol)"
    and dec: "decode_psbt C input = Inr request" and enc: "text = encode_psbt C result"
    and faithful: "signing_faithful C request result" by blast
  from psbt_summary_of [OF assms(1) dec, of network] obtain shown where
    "psbt_summary C input network = Inr shown"
    "summary_of C network shown (ps_unsigned_tx request)" by blast
  with faithful j dec enc show ?thesis unfolding signing_faithful_def by metis
qed

theorem signed_as_summarized_witness:
  "\<exists>j input pol shown result. last_start sample_history 8 j (SignPsbt input pol)
    \<and> psbt_summary sample_crates input Regtest = Inr shown
    \<and> sample_text = encode_psbt sample_crates result
    \<and> summary_of sample_crates Regtest shown (ps_unsigned_tx result)"
proof -
  have signer: "interps sample_host4 8 = Some sample_signer" by (simp add: sample_host4_def)
  note signed = signed_as_summarized [OF sample_amounts_ok sample_sighash_ok sample_history_trace
      signer sample_run_end [folded sample_signer_def], of Regtest]
  have "\<not> wtxid_collision sample_crates (ps_unsigned_tx sample_psbt) t" for t
    using sample_no_collision by (simp add: sample_psbt_def)
  with signed sample_request show ?thesis by metis
qed

end
